theory Spec2Isabelle
  imports Complex_Main "HOL-Library.Log_Nat" "HOL-Library.Word"
begin

section \<open>Data model\<close>

text \<open>
  The pipeline of \<^verbatim>\<open>image_processing.py\<close> works on NumPy arrays: \<^verbatim>\<open>uint8\<close> arrays of
  shape \<open>(H, W, 3)\<close> in BGR order (what \<^verbatim>\<open>cv2.imread\<close> returns), single-channel
  \<^verbatim>\<open>uint8\<close> arrays of shape \<open>(H, W)\<close>, and their \<^verbatim>\<open>float32\<close> counterparts inside
  \<^verbatim>\<open>remove_fog\<close>. An array is a record of its shape and of its content, read by row
  and column. A \<^verbatim>\<open>uint8\<close> sample is an \<open>8 word\<close>.

  The \<^verbatim>\<open>float32\<close> samples of \<^verbatim>\<open>remove_fog\<close> and the mean grey value are modelled by exact
  reals. The three places where the source truncates a binary64 value to an integer
  that decides a shape, a count or a table entry (the resize target of
  \<^verbatim>\<open>enhance_low_light\<close>, the number of brightest pixels of \<^verbatim>\<open>remove_fog\<close>, the table of
  \<^verbatim>\<open>apply_gamma_correction\<close>) are modelled with IEEE binary64 rounding, see \<open>fl64\<close>
  below.
\<close>

type_synonym u8 = "8 word"

record 'a grid =
  height :: nat
  width :: nat
  px :: "nat \<Rightarrow> nat \<Rightarrow> 'a"

type_synonym bgr = "u8 \<times> u8 \<times> u8"
type_synonym image = "bgr grid"
type_synonym plane = "u8 grid"
type_synonym fimage = "(real \<times> real \<times> real) grid"
type_synonym fplane = "real grid"

datatype error = Cv2Error | ZeroDivisionError

text \<open>An array of the shape of \<open>g\<close> with new content.\<close>

definition same_shape :: "'a grid \<Rightarrow> (nat \<Rightarrow> nat \<Rightarrow> 'b) \<Rightarrow> 'b grid" where
  "same_shape g f = \<lparr>height = height g, width = width g, px = f\<rparr>"

text \<open>Row-major flattening: \<^verbatim>\<open>a.ravel()\<close> and \<^verbatim>\<open>a.reshape(-1, 3)\<close>.\<close>

definition flat_px :: "'a grid \<Rightarrow> nat \<Rightarrow> 'a" where
  "flat_px g i = px g (i div width g) (i mod width g)"

definition ravel :: "'a grid \<Rightarrow> 'a list" where
  "ravel g = map (flat_px g) [0..<height g * width g]"

section \<open>Python floats where a truncation makes the rounding visible\<close>

text \<open>
  \<open>fl64 x\<close> is the binary64 number nearest to the rational \<open>x\<close> (53-bit significand,
  ties to even), for \<open>x\<close> in the normal range: overflow and subnormals, which image
  sizes never reach, are not represented. Python's \<^verbatim>\<open>a / b\<close> on ints and \<^verbatim>\<open>a * b\<close> on
  floats return the correctly rounded result, so they are \<open>fl64 (a / b)\<close> and
  \<open>fl64 (a * b)\<close>, and so do the same operations of NumPy on \<^verbatim>\<open>float64\<close>; \<^verbatim>\<open>int(x)\<close>
  truncates towards zero. A float written as a decimal literal \<open>x\<close> has the value
  \<open>fl64 x\<close>.
\<close>

definition round_half_even :: "'a::floor_ceiling \<Rightarrow> int" where
  "round_half_even x =
     (let f = \<lfloor>x\<rfloor>; d = x - of_int f
      in if d < 1 / 2 then f else if 1 / 2 < d then f + 1 else if even f then f else f + 1)"

definition ilog2 :: "rat \<Rightarrow> int" where
  "ilog2 x =
     (let (p, q) = quotient_of x; e = bitlen p - bitlen q
      in if 2 powi e \<le> x then e else e - 1)"

definition fl64 :: "rat \<Rightarrow> rat" where
  "fl64 x =
     (if x = 0 then 0
      else let u = 2 powi (ilog2 \<bar>x\<bar> - 52)
           in sgn x * of_int (round_half_even (\<bar>x\<bar> / u)) * u)"

definition py_int :: "'a::floor_ceiling \<Rightarrow> int" where
  "py_int x = (if 0 \<le> x then \<lfloor>x\<rfloor> else \<lceil>x\<rceil>)"

section \<open>OpenCV and NumPy primitives\<close>

text \<open>
  The filters of OpenCV that the pipeline calls are library code outside the repository.
  Each of them is documented to return an array of the size and type of its source, and
  that much is built into the model; what the filter computes at each position is a
  parameter, a field of the record \<open>opencv\<close>, about which nothing is assumed.
  \<^verbatim>\<open>np.argpartition\<close> is a parameter in the same way, and so is the power \<^verbatim>\<open>x ** y\<close> of
  NumPy on \<^verbatim>\<open>float64\<close>, which is the \<^verbatim>\<open>pow\<close> of the C library: it takes two binary64
  values to a binary64 value whose last bit depends on the platform. The numeric
  arguments of each call are kept as arguments.
\<close>

record opencv =
  bgr2lab :: "image \<Rightarrow> nat \<Rightarrow> nat \<Rightarrow> bgr"
  lab2bgr :: "image \<Rightarrow> nat \<Rightarrow> nat \<Rightarrow> bgr"
  bgr2gray :: "image \<Rightarrow> nat \<Rightarrow> nat \<Rightarrow> u8"
  equalize_hist :: "plane \<Rightarrow> nat \<Rightarrow> nat \<Rightarrow> u8"
  clahe_apply :: "real \<Rightarrow> nat \<times> nat \<Rightarrow> plane \<Rightarrow> nat \<Rightarrow> nat \<Rightarrow> u8"
  gaussian_blur :: "image \<Rightarrow> nat \<times> nat \<Rightarrow> real \<Rightarrow> nat \<Rightarrow> nat \<Rightarrow> bgr"
  resize_px :: "image \<Rightarrow> nat \<times> nat \<Rightarrow> nat \<Rightarrow> nat \<Rightarrow> bgr"
  bilateral_filter :: "image \<Rightarrow> nat \<Rightarrow> real \<Rightarrow> real \<Rightarrow> nat \<Rightarrow> nat \<Rightarrow> bgr"
  nl_means_colored :: "image \<Rightarrow> real \<Rightarrow> real \<Rightarrow> nat \<Rightarrow> nat \<Rightarrow> nat \<Rightarrow> nat \<Rightarrow> bgr"
  guided_filter :: "plane \<Rightarrow> plane \<Rightarrow> nat \<Rightarrow> real \<Rightarrow> nat \<Rightarrow> nat \<Rightarrow> u8"
  argpartition :: "real list \<Rightarrow> int \<Rightarrow> nat list"
  float64_power :: "rat \<Rightarrow> rat \<Rightarrow> rat"

definition cvtColor_BGR2LAB :: "opencv \<Rightarrow> image \<Rightarrow> image" where
  "cvtColor_BGR2LAB cv src = same_shape src (bgr2lab cv src)"

definition cvtColor_LAB2BGR :: "opencv \<Rightarrow> image \<Rightarrow> image" where
  "cvtColor_LAB2BGR cv src = same_shape src (lab2bgr cv src)"

definition cvtColor_BGR2GRAY :: "opencv \<Rightarrow> image \<Rightarrow> plane" where
  "cvtColor_BGR2GRAY cv src = same_shape src (bgr2gray cv src)"

definition equalizeHist :: "opencv \<Rightarrow> plane \<Rightarrow> plane" where
  "equalizeHist cv src = same_shape src (equalize_hist cv src)"

definition createCLAHE_apply :: "opencv \<Rightarrow> real \<Rightarrow> nat \<times> nat \<Rightarrow> plane \<Rightarrow> plane" where
  "createCLAHE_apply cv clipLimit tileGridSize src =
     same_shape src (clahe_apply cv clipLimit tileGridSize src)"

definition GaussianBlur :: "opencv \<Rightarrow> image \<Rightarrow> nat \<times> nat \<Rightarrow> real \<Rightarrow> image" where
  "GaussianBlur cv src ksize sigmaX = same_shape src (gaussian_blur cv src ksize sigmaX)"

definition bilateralFilter :: "opencv \<Rightarrow> image \<Rightarrow> nat \<Rightarrow> real \<Rightarrow> real \<Rightarrow> image" where
  "bilateralFilter cv src d sigmaColor sigmaSpace =
     same_shape src (bilateral_filter cv src d sigmaColor sigmaSpace)"

definition fastNlMeansDenoisingColored ::
  "opencv \<Rightarrow> image \<Rightarrow> real \<Rightarrow> real \<Rightarrow> nat \<Rightarrow> nat \<Rightarrow> image" where
  "fastNlMeansDenoisingColored cv src h hColor templateWindowSize searchWindowSize =
     same_shape src (nl_means_colored cv src h hColor templateWindowSize searchWindowSize)"

definition guidedFilter :: "opencv \<Rightarrow> plane \<Rightarrow> plane \<Rightarrow> nat \<Rightarrow> real \<Rightarrow> plane" where
  "guidedFilter cv guide src radius eps = same_shape src (guided_filter cv guide src radius eps)"

text \<open>
  \<^verbatim>\<open>cv2.resize(src, (w, h))\<close> asserts that the requested size is not empty (both
  components positive) and raises \<^verbatim>\<open>cv2.error\<close> otherwise; on success the result has
  \<open>h\<close> rows and \<open>w\<close> columns.
\<close>

definition resize :: "opencv \<Rightarrow> image \<Rightarrow> int \<times> int \<Rightarrow> error + image" where
  "resize cv src dsize =
     (case dsize of (w, h) \<Rightarrow>
        if w \<le> 0 \<or> h \<le> 0 then Inl Cv2Error
        else Inr \<lparr>height = nat h, width = nat w, px = resize_px cv src (nat w, nat h)\<rparr>)"

text \<open>Channels: \<^verbatim>\<open>cv2.split\<close> and \<^verbatim>\<open>cv2.merge\<close>.\<close>

definition split :: "('a \<times> 'a \<times> 'a) grid \<Rightarrow> 'a grid \<times> 'a grid \<times> 'a grid" where
  "split m =
     (same_shape m (\<lambda>y x. fst (px m y x)),
      same_shape m (\<lambda>y x. fst (snd (px m y x))),
      same_shape m (\<lambda>y x. snd (snd (px m y x))))"

definition merge :: "'a grid \<times> 'a grid \<times> 'a grid \<Rightarrow> ('a \<times> 'a \<times> 'a) grid" where
  "merge mv =
     (case mv of (c0, c1, c2) \<Rightarrow> same_shape c0 (\<lambda>y x. (px c0 y x, px c1 y x, px c2 y x)))"

text \<open>
  Conversions between the two sample types. \<^verbatim>\<open>astype('uint8')\<close> on a float truncates
  towards zero; a value outside \<open>[0, 256)\<close> has no defined result in NumPy and wraps
  here (\<open>word_of_int\<close>), so every use below comes with its range. OpenCV's
  \<open>saturate_cast<uchar>\<close> rounds to nearest (ties to even) and clamps.
\<close>

definition astype_uint8 :: "'a::floor_ceiling \<Rightarrow> u8" where
  "astype_uint8 v = word_of_int (py_int v)"

definition saturate_cast_uchar :: "real \<Rightarrow> u8" where
  "saturate_cast_uchar v = word_of_int (max 0 (min 255 (round_half_even v)))"

definition u8_real :: "u8 \<Rightarrow> real" where
  "u8_real b = real (unat b)"

definition map3 :: "('a \<Rightarrow> 'b) \<Rightarrow> 'a \<times> 'a \<times> 'a \<Rightarrow> 'b \<times> 'b \<times> 'b" where
  "map3 f p = (case p of (a, b, c) \<Rightarrow> (f a, f b, f c))"

definition LUT :: "image \<Rightarrow> u8 list \<Rightarrow> image" where
  "LUT src lut = same_shape src (\<lambda>y x. map3 (\<lambda>v. lut ! unat v) (px src y x))"

definition addWeighted :: "image \<Rightarrow> real \<Rightarrow> image \<Rightarrow> real \<Rightarrow> real \<Rightarrow> image" where
  "addWeighted src1 alpha src2 beta gamma =
     same_shape src1 (\<lambda>y x.
        case (px src1 y x, px src2 y x) of ((a0, a1, a2), (b0, b1, b2)) \<Rightarrow>
          (saturate_cast_uchar (u8_real a0 * alpha + u8_real b0 * beta + gamma),
           saturate_cast_uchar (u8_real a1 * alpha + u8_real b1 * beta + gamma),
           saturate_cast_uchar (u8_real a2 * alpha + u8_real b2 * beta + gamma)))"

definition clip :: "real \<Rightarrow> real \<Rightarrow> real \<Rightarrow> real" where
  "clip v lo hi = min (max v lo) hi"

text \<open>
  \<^verbatim>\<open>cv2.erode(src, np.ones((k, k)))\<close>: the minimum over the \<open>k \<times> k\<close> window anchored at
  its centre. With the default border the positions outside the array do not take part.
\<close>

definition window :: "nat \<Rightarrow> nat \<Rightarrow> nat \<Rightarrow> nat list" where
  "window k n c = filter (\<lambda>j. j < n) [c - k div 2 ..< c + (k - k div 2)]"

definition erode :: "fplane \<Rightarrow> nat \<Rightarrow> fplane" where
  "erode src k =
     same_shape src (\<lambda>y x.
        Min (set (map (\<lambda>(j, i). px src j i)
                      (List.product (window k (height src) y) (window k (width src) x)))))"

section \<open>The helpers of \<^verbatim>\<open>image_processing.py\<close>\<close>

text \<open>
  \<^verbatim>\<open>apply_gamma_correction\<close>, lines 6 to 8 in binary64. The argument \<open>gamma\<close> is a Python
  float, of value \<open>fl64 gamma\<close>. \<^verbatim>\<open>1.0 / gamma\<close> raises on \<open>gamma = 0\<close> and is correctly
  rounded otherwise. For each \<open>i\<close> of \<^verbatim>\<open>np.arange(0, 256)\<close> the quotient \<^verbatim>\<open>i / 255.0\<close> and the
  product with 255 are correctly rounded, the power between them is the library's, and
  \<^verbatim>\<open>astype("uint8")\<close> truncates the product.
\<close>

definition gamma_table :: "opencv \<Rightarrow> rat \<Rightarrow> u8 list" where
  "gamma_table cv gamma =
     (let inv_gamma = fl64 (1 / fl64 gamma)
      in map (\<lambda>i. astype_uint8
                   (fl64 (float64_power cv (fl64 (of_nat i / 255)) inv_gamma * 255)))
             [0..<256])"

definition apply_gamma_correction :: "opencv \<Rightarrow> image \<Rightarrow> rat \<Rightarrow> error + image" where
  "apply_gamma_correction cv im gamma =
     (if gamma = 0 then Inl ZeroDivisionError
      else Inr (LUT im (gamma_table cv gamma)))"

definition simple_white_balance :: "opencv \<Rightarrow> image \<Rightarrow> image" where
  "simple_white_balance cv im =
     (let lab = cvtColor_BGR2LAB cv im;
          (l, a, b) = split lab;
          l' = equalizeHist cv l;
          lab' = merge (l', a, b)
      in cvtColor_LAB2BGR cv lab')"

definition sharpen_image :: "opencv \<Rightarrow> image \<Rightarrow> real \<Rightarrow> image" where
  "sharpen_image cv im strength =
     (let blur = GaussianBlur cv im (0, 0) 3;
          sharp = addWeighted im (1 + strength) blur (- strength) 0
      in sharp)"

section \<open>Low-light enhancement\<close>

text \<open>Lines 31 and 32: the size handed to \<^verbatim>\<open>cv2.resize\<close>, as \<open>(width, height)\<close>.\<close>

definition resize_target :: "nat \<Rightarrow> nat \<Rightarrow> int \<times> int" where
  "resize_target h w =
     (let scale = fl64 (1500 / of_nat (max h w))
      in (py_int (fl64 (of_nat w * scale)), py_int (fl64 (of_nat h * scale))))"

definition downscale_guard :: "opencv \<Rightarrow> image \<Rightarrow> error + image" where
  "downscale_guard cv im =
     (let h = height im; w = width im
      in if max h w > 1500 then resize cv im (resize_target h w) else Inr im)"

text \<open>Lines 35 to 45: white balance, then CLAHE on the L channel.\<close>

definition local_contrast :: "opencv \<Rightarrow> image \<Rightarrow> image" where
  "local_contrast cv im =
     (let balanced = simple_white_balance cv im;
          lab = cvtColor_BGR2LAB cv balanced;
          (l, a, b) = split lab;
          cl = createCLAHE_apply cv 3.5 (8, 8) l;
          limg = merge (cl, a, b)
      in cvtColor_LAB2BGR cv limg)"

text \<open>\<^verbatim>\<open>a.mean()\<close> of a \<^verbatim>\<open>uint8\<close> array.\<close>

definition mean_u8 :: "plane \<Rightarrow> real" where
  "mean_u8 g = sum_list (map u8_real (ravel g)) / real (height g * width g)"

text \<open>Lines 49 to 54.\<close>

definition adaptive_gamma :: "real \<Rightarrow> rat" where
  "adaptive_gamma mean_brightness =
     (if mean_brightness < 60 then 1.8
      else if mean_brightness < 90 then 1.5
      else 1.2)"

definition enhance_low_light :: "opencv \<Rightarrow> image \<Rightarrow> error + image" where
  "enhance_low_light cv im0 =
     (case downscale_guard cv im0 of
        Inl e \<Rightarrow> Inl e
      | Inr im \<Rightarrow>
          let enhanced = local_contrast cv im;
              mean_brightness = mean_u8 (cvtColor_BGR2GRAY cv enhanced);
              gamma = adaptive_gamma mean_brightness
          in (case apply_gamma_correction cv enhanced gamma of
                Inl e \<Rightarrow> Inl e
              | Inr enhanced' \<Rightarrow> Inr (sharpen_image cv enhanced' 0.4)))"

section \<open>Fog removal\<close>

definition to_float :: "image \<Rightarrow> fimage" where
  "to_float im = same_shape im (\<lambda>y x. map3 (\<lambda>v. u8_real v / 255) (px im y x))"

definition to_uint8 :: "fimage \<Rightarrow> image" where
  "to_uint8 m = same_shape m (\<lambda>y x. map3 (\<lambda>v. astype_uint8 (v * 255)) (px m y x))"

definition min3 :: "real \<times> real \<times> real \<Rightarrow> real" where
  "min3 p = (case p of (c0, c1, c2) \<Rightarrow> min (min c0 c1) c2)"

definition max3 :: "real \<times> real \<times> real \<Rightarrow> real" where
  "max3 p = (case p of (c0, c1, c2) \<Rightarrow> max (max c0 c1) c2)"

text \<open>Lines 69 to 71.\<close>

definition dark_channel :: "fimage \<Rightarrow> fplane" where
  "dark_channel img =
     (let kernel_size = 15;
          min_channel = same_shape img (\<lambda>y x. min3 (px img y x))
      in erode min_channel kernel_size)"

text \<open>Line 76: \<^verbatim>\<open>int(max(num_pixels * 0.001, 1))\<close>.\<close>

definition num_bright :: "nat \<Rightarrow> nat" where
  "num_bright num_pixels = nat (py_int (max (fl64 (of_nat num_pixels * fl64 (1 / 1000))) 1))"

definition mean_axis0 :: "(real \<times> real \<times> real) list \<Rightarrow> real \<times> real \<times> real" where
  "mean_axis0 ps =
     (sum_list (map fst ps) / real (length ps),
      sum_list (map (fst \<circ> snd) ps) / real (length ps),
      sum_list (map (snd \<circ> snd) ps) / real (length ps))"

text \<open>
  Lines 74 to 79. The slice \<^verbatim>\<open>[-num_bright:]\<close> keeps the last \<open>num_bright\<close> entries (all
  of them when there are fewer); fancy indexing reads the flattened colour array.
\<close>

definition brightest_indices :: "opencv \<Rightarrow> fplane \<Rightarrow> nat list" where
  "brightest_indices cv dark =
     (let flat_dark = ravel dark;
          num_pixels = length flat_dark;
          nb = num_bright num_pixels;
          part = argpartition cv flat_dark (- int nb)
      in drop (length part - nb) part)"

definition atmospheric_light :: "opencv \<Rightarrow> fimage \<Rightarrow> fplane \<Rightarrow> real \<times> real \<times> real" where
  "atmospheric_light cv img dark =
     (let indices = brightest_indices cv dark;
          brightest = map (flat_px img) indices
      in mean_axis0 brightest)"

text \<open>Lines 82 and 83.\<close>

definition transmission_estimate :: "fplane \<Rightarrow> real \<times> real \<times> real \<Rightarrow> fplane" where
  "transmission_estimate dark A =
     (let omega = 0.95
      in same_shape dark (\<lambda>y x. 1 - omega * px dark y x / (max3 A + 1 / 1000000)))"

text \<open>Lines 86 to 92: guided filter on the 8-bit transmission, back to floats, clamp.\<close>

definition refine_transmission :: "opencv \<Rightarrow> fimage \<Rightarrow> fplane \<Rightarrow> fplane" where
  "refine_transmission cv img transmission =
     (let gray = cvtColor_BGR2GRAY cv (to_uint8 img);
          src = same_shape transmission (\<lambda>y x. astype_uint8 (px transmission y x * 255));
          refined = guidedFilter cv gray src 40 (1 / 1000)
      in same_shape refined (\<lambda>y x. clip (u8_real (px refined y x) / 255) 0.2 1.0))"

text \<open>Lines 95 to 97.\<close>

definition recover_radiance :: "fimage \<Rightarrow> real \<times> real \<times> real \<Rightarrow> fplane \<Rightarrow> fimage" where
  "recover_radiance img A transmission =
     same_shape img (\<lambda>y x.
        case (px img y x, A) of ((i0, i1, i2), (a0, a1, a2)) \<Rightarrow>
          let t = px transmission y x
          in (clip ((i0 - a0) / t + a0) 0 1,
              clip ((i1 - a1) / t + a1) 0 1,
              clip ((i2 - a2) / t + a2) 0 1))"

definition remove_fog :: "opencv \<Rightarrow> image \<Rightarrow> image" where
  "remove_fog cv im =
     (let img = to_float im;
          dark = dark_channel img;
          A = atmospheric_light cv img dark;
          transmission = refine_transmission cv img (transmission_estimate dark A);
          J = recover_radiance img A transmission;
          dehazed = to_uint8 J;
          dehazed' = simple_white_balance cv dehazed
      in sharpen_image cv dehazed' 0.5)"





section \<open>Smoke and noise removal\<close>

definition remove_smoke_noise :: "opencv \<Rightarrow> image \<Rightarrow> image" where
  "remove_smoke_noise cv im =
     (let balanced = simple_white_balance cv im;
          smooth = bilateralFilter cv balanced 9 75 75;
          denoised = fastNlMeansDenoisingColored cv smooth 8 8 7 21
      in sharpen_image cv denoised 0.3)"

section \<open>The mode dispatch of \<^verbatim>\<open>app.py\<close>\<close>

text \<open>
  Lines 60 to 67 of \<^verbatim>\<open>enhance\<close>, reached with a decoded image. The mode is the form
  field, absent (\<open>None\<close>) when the request does not carry it.
\<close>

definition process :: "opencv \<Rightarrow> string option \<Rightarrow> image \<Rightarrow> error + image" where
  "process cv mode im =
     (if mode = Some ''low_light'' then enhance_low_light cv im
      else if mode = Some ''fog'' then Inr (remove_fog cv im)
      else if mode = Some ''smoke'' then Inr (remove_smoke_noise cv im)
      else Inr im)"

section \<open>Shapes and a concrete instance of the primitives\<close>

text \<open>\<^verbatim>\<open>a.shape[:2]\<close>: rows, then columns.\<close>

definition shape :: "'a grid \<Rightarrow> nat \<times> nat" where
  "shape g = (height g, width g)"

text \<open>
  An instance of the library primitives, used to run the pipeline on examples. Every
  filter returns its source unchanged, the grey value is the green channel, resizing
  samples the nearest source position, \<open>argpartition\<close> is a full ascending argsort and
  the power is the correctly rounded one for the integer part of the exponent, which
  is the exponent itself in the examples. The theorems below hold for every instance.
\<close>

definition plain_cv :: opencv where
  "plain_cv =
     \<lparr>bgr2lab = px, lab2bgr = px,
      bgr2gray = (\<lambda>src y x. fst (snd (px src y x))),
      equalize_hist = px,
      clahe_apply = (\<lambda>clipLimit tileGridSize. px),
      gaussian_blur = (\<lambda>src ksize sigmaX. px src),
      resize_px = (\<lambda>src dsize y x.
         px src (y * height src div snd dsize) (x * width src div fst dsize)),
      bilateral_filter = (\<lambda>src d sigmaColor sigmaSpace. px src),
      nl_means_colored = (\<lambda>src h hColor t s. px src),
      guided_filter = (\<lambda>guide src radius eps. px src),
      argpartition = (\<lambda>a kth. map snd (sort_key fst (zip a [0..<length a]))),
      float64_power = (\<lambda>x y. fl64 (x ^ nat \<lfloor>y\<rfloor>))\<rparr>"

text \<open>
  What NumPy documents about \<^verbatim>\<open>np.argpartition(a, kth)\<close>, for the normalised position
  \<open>kth\<close> (a negative \<open>kth\<close> counts from the end): the result is a permutation of the
  indices of \<open>a\<close>, and every entry before position \<open>kth\<close> selects a value that is at most
  each value selected from position \<open>kth\<close> on. Ties are left to the implementation.
\<close>

definition partitioned :: "real list \<Rightarrow> nat \<Rightarrow> nat list \<Rightarrow> bool" where
  "partitioned a kth p \<longleftrightarrow>
     distinct p \<and> set p = set [0..<length a] \<and>
     list_all (\<lambda>i. list_all (\<lambda>j. a ! (p ! i) \<le> a ! (p ! j)) [kth..<length p]) [0..<kth]"

text \<open>
  What the gamma table needs of the library's power, for binary64 arguments (the fixed
  points of \<open>fl64\<close>), a base in the unit interval and a positive exponent: the result
  stays in the unit interval (\<open>power_unit_range\<close>), it does not decrease when the base
  grows, and the exponent 1 returns the base. Every correctly rounded power has the
  three properties; the C standard does not promise them, so they are hypotheses where
  they are used.
\<close>

definition power_unit_range :: "(rat \<Rightarrow> rat \<Rightarrow> rat) \<Rightarrow> bool" where
  "power_unit_range pw \<longleftrightarrow>
     (\<forall>x y. fl64 x = x \<and> fl64 y = y \<and> 0 \<le> x \<and> x \<le> 1 \<and> 0 < y
        \<longrightarrow> 0 \<le> pw x y \<and> pw x y \<le> 1)"

definition power_contract :: "(rat \<Rightarrow> rat \<Rightarrow> rat) \<Rightarrow> bool" where
  "power_contract pw \<longleftrightarrow>
     power_unit_range pw \<and>
     (\<forall>x x' y. fl64 x = x \<and> fl64 x' = x' \<and> fl64 y = y
        \<and> 0 \<le> x \<and> x \<le> x' \<and> x' \<le> 1 \<and> 0 < y \<longrightarrow> pw x y \<le> pw x' y) \<and>
     (\<forall>x. fl64 x = x \<and> 0 \<le> x \<and> x \<le> 1 \<longrightarrow> pw x 1 = x)"


definition spec_resize_target :: "nat \<Rightarrow> nat \<Rightarrow> int \<times> int" where
  "spec_resize_target h w =
     (\<lfloor>(of_nat w * 1500 / of_nat (max h w) :: rat)\<rfloor>,
      \<lfloor>(of_nat h * 1500 / of_nat (max h w) :: rat)\<rfloor>)"

text \<open>An image of one row and two columns, for examples of \<^verbatim>\<open>remove_fog\<close>.\<close>

definition two_pixels :: image where
  "two_pixels = \<lparr>height = 1, width = 2, px = \<lambda>y x. (if x = 0 then 50 else 200, 100, 150)\<rparr>"

section \<open>Facts about the float model\<close>

lemma ilog2_bounds:
  assumes "0 < x"
  shows "2 powi (ilog2 x) \<le> x \<and> x < 2 powi (ilog2 x + 1)"
proof -
  obtain p q where pq: "quotient_of x = (p, q)" by (cases "quotient_of x")
  have q: "0 < q" using quotient_of_denom_pos [OF pq] .
  have x: "x = of_int p / of_int q" using quotient_of_div [OF pq] .
  have p: "0 < p" using assms q unfolding x by (simp add: zero_less_divide_iff)
  define A where "A = nat (bitlen p - 1)"
  define B where "B = nat (bitlen q - 1)"
  have bp1: "1 \<le> bitlen p" using p bitlen_eq_zero_iff [of p] bitlen_nonneg [of p] by linarith
  have bq1: "1 \<le> bitlen q" using q bitlen_eq_zero_iff [of q] bitlen_nonneg [of q] by linarith
  have bp: "bitlen p = int A + 1" using bp1 by (simp add: A_def)
  have bq: "bitlen q = int B + 1" using bq1 by (simp add: B_def)
  have pA: "2 ^ A \<le> p" "p < 2 ^ (A + 1)"
    using bitlen_bounds [OF p] unfolding bp by (simp_all add: nat_add_distrib)
  have qB: "2 ^ B \<le> q" "q < 2 ^ (B + 1)"
    using bitlen_bounds [OF q] unfolding bq by (simp_all add: nat_add_distrib)
  define e where "e = int A - int B"
  have e: "bitlen p - bitlen q = e" by (simp add: bp bq e_def)
  have qr: "(0::rat) < of_int q" using q by simp
  have up: "x < 2 powi (e + 1)"
  proof -
    have "p * 2 ^ B < 2 ^ (A + 1) * q"
    proof -
      have "p * 2 ^ B < 2 ^ (A + 1) * 2 ^ B" using pA(2) by simp
      also have "\<dots> \<le> 2 ^ (A + 1) * q" using qB(1) by simp
      finally show ?thesis .
    qed
    then have "(of_int (p * 2 ^ B) :: rat) < of_int (2 ^ (A + 1) * q)"
      by (simp only: of_int_less_iff)
    then have "(of_int p :: rat) * 2 ^ B < 2 ^ (A + 1) * of_int q" by simp
    then have "(of_int p :: rat) / of_int q < 2 ^ (A + 1) / 2 ^ B"
      using qr by (simp add: field_simps)
    moreover have "(2::rat) powi (e + 1) = 2 ^ (A + 1) / 2 ^ B"
    proof -
      have e1: "e + 1 = int (A + 1) - int B" by (simp add: e_def)
      have "(2::rat) powi (e + 1) = 2 powi int (A + 1) / 2 powi int B"
        unfolding e1 by (rule power_int_diff) simp
      also have "\<dots> = 2 ^ (A + 1) / 2 ^ B" by (simp only: power_int_of_nat)
      finally show ?thesis .
    qed
    ultimately show ?thesis by (simp add: x)
  qed
  have lo: "2 powi (e - 1) < x"
  proof -
    have "2 ^ A * q < p * 2 ^ (B + 1)"
    proof -
      have "2 ^ A * q < 2 ^ A * 2 ^ (B + 1)" using qB(2) by simp
      also have "\<dots> \<le> p * 2 ^ (B + 1)" using pA(1) by simp
      finally show ?thesis .
    qed
    then have "(of_int (2 ^ A * q) :: rat) < of_int (p * 2 ^ (B + 1))"
      by (simp only: of_int_less_iff)
    then have "(2::rat) ^ A * of_int q < of_int p * 2 ^ (B + 1)" by simp
    then have "(2::rat) ^ A / 2 ^ (B + 1) < of_int p / of_int q"
      using qr by (simp add: field_simps)
    moreover have "(2::rat) powi (e - 1) = 2 ^ A / 2 ^ (B + 1)"
    proof -
      have e1: "e - 1 = int A - int (B + 1)" by (simp add: e_def)
      have "(2::rat) powi (e - 1) = 2 powi int A / 2 powi int (B + 1)"
        unfolding e1 by (rule power_int_diff) simp
      also have "\<dots> = 2 ^ A / 2 ^ (B + 1)" by (simp only: power_int_of_nat)
      finally show ?thesis .
    qed
    ultimately show ?thesis by (simp add: x)
  qed
  have il: "ilog2 x = (if 2 powi e \<le> x then e else e - 1)"
    by (simp add: ilog2_def pq e)
  show ?thesis
  proof (cases "2 powi e \<le> x")
    case True
    then show ?thesis using up by (simp add: il)
  next
    case False
    then show ?thesis using lo by (simp add: il)
  qed
qed

lemma ilog2_eqI:
  assumes "2 powi e \<le> x" and "x < 2 powi (e + 1)"
  shows "ilog2 x = e"
proof -
  have "0 < x" using assms(1) zero_less_power_int [of "2::rat" e] by linarith
  note b = ilog2_bounds [OF this]
  have "2 powi e < (2::rat) powi (ilog2 x + 1)" using assms(1) b by linarith
  then have "e < ilog2 x + 1"
    by (metis power_int_increasing not_le one_le_numeral)
  moreover have "2 powi ilog2 x < (2::rat) powi (e + 1)" using assms(2) b by linarith
  then have "ilog2 x < e + 1"
    by (metis power_int_increasing not_le one_le_numeral)
  ultimately show ?thesis by linarith
qed

lemma fl64_eqI:
  assumes "2 powi e \<le> x" and "x < 2 powi (e + 1)"
  shows "fl64 x = of_int (round_half_even (x / 2 powi (e - 52))) * 2 powi (e - 52)"
proof -
  have "0 < x" using assms(1) zero_less_power_int [of "2::rat" e] by linarith
  then show ?thesis
    by (simp add: fl64_def Let_def ilog2_eqI [OF assms])
qed

lemma fl64_three_quarters: "fl64 (3 / 4) = 3 / 4"
  by (simp add: fl64_eqI [of "-1"] round_half_even_def power_int_minus)

lemma floor_rat_numeral_div:
  "\<lfloor>(numeral a :: rat) / numeral b\<rfloor> = numeral a div numeral b"
  using floor_divide_of_int_eq [of "numeral a" "numeral b", where ?'a = rat] by simp

lemmas fl64_eval = round_half_even_def Let_def power_int_minus floor_rat_numeral_div

lemma fl64_1500: "fl64 1500 = 1500"
  by (simp add: fl64_eqI [of 10] fl64_eval)

lemma resize_target_2000_1: "resize_target 2000 1 = (0, 1500)"
proof -
  have s: "fl64 (3 / 4) = 3 / 4"
    by (simp add: fl64_eqI [of "-1"] fl64_eval)
  show ?thesis
    by (simp add: resize_target_def Let_def py_int_def floor_rat_numeral_div s fl64_1500)
qed

lemma fl64_scale_2147: "fl64 (1500 / 2147) = 6292873256689095 / 9007199254740992"
  by (simp add: fl64_eqI [of "-1"] fl64_eval)

lemma resize_target_100_2147: "resize_target 100 2147 = (1499, 69)"
proof -
  have w: "fl64 (of_nat 2147 * fl64 (1500 / of_nat (max 100 2147)))
             = 6597069766655999 / 4398046511104"
    by (simp add: fl64_scale_2147 fl64_eqI [of 10] fl64_eval)
  have h: "fl64 (of_nat 100 * fl64 (1500 / of_nat (max 100 2147)))
             = 4916307231788355 / 70368744177664"
    by (simp add: fl64_scale_2147 fl64_eqI [of 6] fl64_eval)
  show ?thesis
    unfolding resize_target_def Let_def w h
    by (simp add: py_int_def floor_rat_numeral_div)
qed

lemma fl64_milli: "fl64 (1 / 1000) = 1152921504606847 / 1152921504606846976"
  by (simp add: fl64_eqI [of "-10"] fl64_eval)

lemma num_bright_4: "num_bright 4 = 1"
proof -
  have "fl64 (4 * (1152921504606847 / 1152921504606846976)) = 1152921504606847 / 288230376151711744"
    by (simp add: fl64_eqI [of "-8"] fl64_eval)
  then show ?thesis
    by (simp add: num_bright_def py_int_def floor_rat_numeral_div fl64_milli)
qed

lemma num_bright_5000: "num_bright 5000 = 5"
proof -
  have "fl64 (5000 * (1152921504606847 / 1152921504606846976)) = 5"
    by (simp add: fl64_eqI [of 2] fl64_eval)
  then show ?thesis
    by (simp add: num_bright_def py_int_def floor_rat_numeral_div fl64_milli)
qed

section \<open>Rounding bounds\<close>

lemma rhe_of_int: "round_half_even (of_int k) = k"
  by (simp add: round_half_even_def)

lemma round_half_even_ge_floor: "\<lfloor>y\<rfloor> \<le> round_half_even y"
  by (simp add: round_half_even_def Let_def)

lemma round_half_even_le: "of_int (round_half_even y) \<le> (y::rat) + 1 / 2"
proof -
  have f: "of_int \<lfloor>y\<rfloor> \<le> y" by simp
  show ?thesis
  proof (cases "y - of_int \<lfloor>y\<rfloor> < 1 / 2")
    case True
    then have "round_half_even y = \<lfloor>y\<rfloor>" by (simp add: round_half_even_def Let_def)
    then show ?thesis using f by linarith
  next
    case False
    then have "of_int (round_half_even y) \<le> (of_int \<lfloor>y\<rfloor> :: rat) + 1"
      by (simp add: round_half_even_def Let_def)
    then show ?thesis using False by linarith
  qed
qed

lemma fl64_pos:
  assumes "0 < x"
  shows "fl64 x = of_int (round_half_even (x / 2 powi (ilog2 x - 52))) * 2 powi (ilog2 x - 52)"
  using assms by (simp add: fl64_def Let_def)

lemma ulp_le:
  assumes "0 < x"
  shows "(2::rat) powi (ilog2 x - 52) \<le> x / 2 ^ 52"
proof -
  have "(2::rat) powi (ilog2 x - 52) = 2 powi ilog2 x / 2 powi 52"
    by (rule power_int_diff) simp
  also have "\<dots> = 2 powi ilog2 x / 2 ^ 52" by simp
  also have "\<dots> \<le> x / 2 ^ 52"
    using ilog2_bounds [OF assms] by (simp add: divide_right_mono)
  finally show ?thesis .
qed

lemma fl64_upper:
  assumes "0 < x"
  shows "fl64 x \<le> x * (1 + 1 / 2 ^ 53)"
proof -
  define u :: rat where "u = 2 powi (ilog2 x - 52)"
  have u: "0 < u" by (simp add: u_def)
  have "fl64 x = of_int (round_half_even (x / u)) * u"
    by (simp add: fl64_pos [OF assms] u_def)
  also have "\<dots> \<le> (x / u + 1 / 2) * u"
    using round_half_even_le [of "x / u"] u by (simp add: mult_right_mono)
  also have "\<dots> = x + u / 2" using u by (simp add: field_simps)
  also have "\<dots> \<le> x + (x / 2 ^ 52) / 2"
    using ulp_le [OF assms] by (simp add: u_def)
  also have "\<dots> = x * (1 + 1 / 2 ^ 53)" by (simp add: field_simps)
  finally show ?thesis .
qed

lemma fl64_ge_nat:
  assumes "0 < x" and "x < 2 ^ 53" and "of_nat q \<le> x"
  shows "of_nat q \<le> fl64 x"
proof -
  define e where "e = ilog2 x"
  have "(2::rat) powi e < 2 powi 53"
    using ilog2_bounds [OF assms(1)] assms(2) by (simp add: e_def)
  then have "e < 53"
    by (metis power_int_increasing not_le one_le_numeral)
  define N where "N = nat (52 - e)"
  have N: "52 - e = int N" using \<open>e < 53\<close> by (simp add: N_def)
  define u :: rat where "u = 2 powi (e - 52)"
  have em: "e - 52 = - int N" using N by linarith
  have "u = 2 powi (- int N)" unfolding u_def em ..
  then have u: "u = 1 / 2 ^ N" by (simp add: power_int_minus divide_inverse)
  have "of_int (int (q * 2 ^ N)) \<le> x * 2 ^ N"
    using assms(3) by simp
  then have "int (q * 2 ^ N) \<le> \<lfloor>x * 2 ^ N\<rfloor>" by (simp only: le_floor_iff)
  also have "\<dots> \<le> round_half_even (x * 2 ^ N)" by (rule round_half_even_ge_floor)
  finally have "(of_int (int (q * 2 ^ N)) :: rat) \<le> of_int (round_half_even (x * 2 ^ N))"
    by (simp only: of_int_le_iff)
  then have "(of_nat q :: rat) * 2 ^ N \<le> of_int (round_half_even (x * 2 ^ N))"
    by simp
  then have "(of_nat q :: rat) \<le> of_int (round_half_even (x * 2 ^ N)) / 2 ^ N"
    by (simp add: pos_le_divide_eq)
  moreover have "fl64 x = of_int (round_half_even (x * 2 ^ N)) / 2 ^ N"
    unfolding fl64_pos [OF assms(1)] e_def [symmetric] u_def [symmetric] by (simp add: u)
  ultimately show ?thesis by simp
qed

lemma round_half_even_le_floor1: "round_half_even y \<le> \<lfloor>y\<rfloor> + 1"
  by (simp add: round_half_even_def Let_def)

lemma round_half_even_ge: "(y::rat) - 1 / 2 \<le> of_int (round_half_even y)"
proof -
  have f: "y < of_int \<lfloor>y\<rfloor> + 1" by linarith
  consider "y - of_int \<lfloor>y\<rfloor> < 1 / 2" | "1 / 2 < y - of_int \<lfloor>y\<rfloor>" | "y - of_int \<lfloor>y\<rfloor> = 1 / 2"
    by linarith
  then show ?thesis
  proof cases
    case 1
    then have "round_half_even y = \<lfloor>y\<rfloor>" by (simp add: round_half_even_def Let_def)
    then show ?thesis using 1 by linarith
  next
    case 2
    then have "round_half_even y = \<lfloor>y\<rfloor> + 1" by (simp add: round_half_even_def Let_def)
    then show ?thesis using f by simp
  next
    case 3
    have "(of_int \<lfloor>y\<rfloor> :: rat) \<le> of_int (round_half_even y)"
      using round_half_even_ge_floor [of y] by (simp only: of_int_le_iff)
    then show ?thesis using 3 by linarith
  qed
qed

lemma round_half_even_mono:
  assumes "(a::rat) \<le> b"
  shows "round_half_even a \<le> round_half_even b"
proof (cases "\<lfloor>a\<rfloor> = \<lfloor>b\<rfloor>")
  case True
  then show ?thesis using assms by (simp add: round_half_even_def Let_def)
next
  case False
  moreover have "\<lfloor>a\<rfloor> \<le> \<lfloor>b\<rfloor>" using assms by (rule floor_mono)
  ultimately have "\<lfloor>a\<rfloor> + 1 \<le> \<lfloor>b\<rfloor>" by linarith
  then show ?thesis
    using round_half_even_le_floor1 [of a] round_half_even_ge_floor [of b] by linarith
qed

lemma round_half_even_near:
  assumes "\<bar>(z::rat) - of_int K\<bar> < 1 / 2"
  shows "round_half_even z = K"
proof -
  have "(of_int K :: rat) - 1 < of_int (round_half_even z)"
    using round_half_even_ge [of z] assms by linarith
  then have "(of_int (K - 1) :: rat) < of_int (round_half_even z)" by simp
  then have lo: "K - 1 < round_half_even z" by (simp only: of_int_less_iff)
  have "(of_int (round_half_even z) :: rat) < of_int K + 1"
    using round_half_even_le [of z] assms by linarith
  then have "(of_int (round_half_even z) :: rat) < of_int (K + 1)" by simp
  then have "round_half_even z < K + 1" by (simp only: of_int_less_iff)
  then show ?thesis using lo by linarith
qed

lemma ulp_times:
  "(2::rat) powi e = 2 ^ 52 * 2 powi (e - 52)"
  "(2::rat) powi (e + 1) = 2 ^ 53 * 2 powi (e - 52)"
proof -
  have "(2::rat) powi (e - 52) = 2 powi e / 2 powi 52" by (rule power_int_diff) simp
  then show "(2::rat) powi e = 2 ^ 52 * 2 powi (e - 52)" by simp
  have "(2::rat) powi (e - 52) = 2 powi (e + 1) / 2 powi 53"
    using power_int_diff [of "2::rat" "e + 1" 53] by simp
  then show "(2::rat) powi (e + 1) = 2 ^ 53 * 2 powi (e - 52)" by simp
qed

lemma fl64_ge_pow:
  assumes "0 < x"
  shows "2 powi (ilog2 x) \<le> fl64 x"
proof -
  define u :: rat where "u = 2 powi (ilog2 x - 52)"
  have u: "0 < u" by (simp add: u_def)
  have p: "(2::rat) powi (ilog2 x) = 2 ^ 52 * u"
    unfolding u_def by (rule ulp_times)
  have "2 ^ 52 * u \<le> x" using ilog2_bounds [OF assms] p by simp
  then have "2 ^ 52 \<le> x / u" using u by (simp add: pos_le_divide_eq)
  then have "(of_int (2 ^ 52) :: rat) \<le> x / u" by simp
  then have "2 ^ 52 \<le> \<lfloor>x / u\<rfloor>" by (simp only: le_floor_iff)
  also have "\<dots> \<le> round_half_even (x / u)" by (rule round_half_even_ge_floor)
  finally have "(of_int (2 ^ 52) :: rat) \<le> of_int (round_half_even (x / u))"
    by (simp only: of_int_le_iff)
  then have "2 ^ 52 * u \<le> of_int (round_half_even (x / u)) * u"
    using u by (simp add: mult_right_mono)
  then show ?thesis unfolding p fl64_pos [OF assms] u_def .
qed

lemma fl64_le_pow:
  assumes "0 < x"
  shows "fl64 x \<le> 2 powi (ilog2 x + 1)"
proof -
  define u :: rat where "u = 2 powi (ilog2 x - 52)"
  have u: "0 < u" by (simp add: u_def)
  have p: "(2::rat) powi (ilog2 x + 1) = 2 ^ 53 * u"
    unfolding u_def by (rule ulp_times)
  have "x < 2 ^ 53 * u" using ilog2_bounds [OF assms] p by simp
  then have "x / u < 2 ^ 53" using u by (simp add: pos_divide_less_eq)
  then have "x / u < of_int (2 ^ 53)" by simp
  then have "\<lfloor>x / u\<rfloor> < 2 ^ 53" by (simp only: floor_less_iff)
  then have "round_half_even (x / u) \<le> 2 ^ 53"
    using round_half_even_le_floor1 [of "x / u"] by linarith
  then have "(of_int (round_half_even (x / u)) :: rat) \<le> of_int (2 ^ 53)"
    by (simp only: of_int_le_iff)
  then have "of_int (round_half_even (x / u)) * u \<le> 2 ^ 53 * u"
    using u by (simp add: mult_right_mono)
  then show ?thesis unfolding p fl64_pos [OF assms] u_def .
qed

lemma fl64_zero: "fl64 0 = 0"
  by (simp add: fl64_def)

lemma fl64_gt_zero:
  assumes "0 < x"
  shows "0 < fl64 x"
proof -
  have "(0::rat) < 2 powi (ilog2 x)" by simp
  then show ?thesis using fl64_ge_pow [OF assms] by linarith
qed

lemma fl64_mono_pos:
  assumes "0 < x" and "x \<le> y"
  shows "fl64 x \<le> fl64 y"
proof -
  have y: "0 < y" using assms by linarith
  have "(2::rat) powi (ilog2 x) < 2 powi (ilog2 y + 1)"
    using ilog2_bounds [OF assms(1)] ilog2_bounds [OF y] assms(2) by linarith
  then have le: "ilog2 x < ilog2 y + 1"
    by (metis power_int_increasing not_le one_le_numeral)
  show ?thesis
  proof (cases "ilog2 x = ilog2 y")
    case True
    define u :: rat where "u = 2 powi (ilog2 y - 52)"
    have u: "0 < u" by (simp add: u_def)
    have "x / u \<le> y / u" using assms(2) u by (simp add: divide_right_mono)
    then have "round_half_even (x / u) \<le> round_half_even (y / u)"
      by (rule round_half_even_mono)
    then have "(of_int (round_half_even (x / u)) :: rat) \<le> of_int (round_half_even (y / u))"
      by (simp only: of_int_le_iff)
    then have "of_int (round_half_even (x / u)) * u \<le> of_int (round_half_even (y / u)) * u"
      using u by (simp add: mult_right_mono)
    then show ?thesis
      unfolding fl64_pos [OF assms(1)] fl64_pos [OF y] True u_def .
  next
    case False
    then have "ilog2 x + 1 \<le> ilog2 y" using le by linarith
    then have "(2::rat) powi (ilog2 x + 1) \<le> 2 powi (ilog2 y)"
      by (rule power_int_increasing) simp
    then show ?thesis
      using fl64_le_pow [OF assms(1)] fl64_ge_pow [OF y] by linarith
  qed
qed

lemma fl64_mono:
  assumes "0 \<le> x" and "x \<le> y"
  shows "fl64 x \<le> fl64 y"
proof (cases "x = 0")
  case True
  show ?thesis
  proof (cases "y = 0")
    case True
    then show ?thesis using \<open>x = 0\<close> by simp
  next
    case False
    then have "0 < y" using assms \<open>x = 0\<close> by linarith
    then show ?thesis using fl64_gt_zero [of y] \<open>x = 0\<close> by (simp add: fl64_zero)
  qed
next
  case False
  then have "0 < x" using assms(1) by linarith
  then show ?thesis using assms(2) by (rule fl64_mono_pos)
qed

lemma fl64_abs_err:
  assumes "0 < x"
  shows "\<bar>fl64 x - x\<bar> \<le> 2 powi (ilog2 x - 52) / 2"
proof -
  define u :: rat where "u = 2 powi (ilog2 x - 52)"
  have u: "0 < u" by (simp add: u_def)
  define r :: rat where "r = of_int (round_half_even (x / u))"
  have "\<bar>r - x / u\<bar> \<le> 1 / 2"
    using round_half_even_ge [of "x / u"] round_half_even_le [of "x / u"]
    unfolding r_def by linarith
  then have "\<bar>r - x / u\<bar> * u \<le> 1 / 2 * u"
    using u by (simp add: mult_right_mono)
  moreover have "\<bar>r - x / u\<bar> * u = \<bar>r * u - x\<bar>"
  proof -
    have "\<bar>r - x / u\<bar> * u = \<bar>r - x / u\<bar> * \<bar>u\<bar>" using u by simp
    also have "\<dots> = \<bar>(r - x / u) * u\<bar>" by (simp only: abs_mult)
    also have "(r - x / u) * u = r * u - x" using u by (simp add: field_simps)
    finally show ?thesis .
  qed
  ultimately have "\<bar>r * u - x\<bar> \<le> u / 2" by simp
  then show ?thesis unfolding fl64_pos [OF assms] u_def r_def .
qed

lemma fl64_near_int:
  assumes "2 powi e \<le> y" and "y < 2 powi (e + 1)" and "e \<le> 52"
    and "\<bar>y - of_int n\<bar> < 2 powi (e - 52) / 2"
  shows "fl64 y = of_int n"
proof -
  define N where "N = nat (52 - e)"
  have N: "52 - e = int N" using assms(3) by (simp add: N_def)
  have em: "e - 52 = - int N" using N by linarith
  have u: "(2::rat) powi (e - 52) = 1 / 2 ^ N"
    unfolding em by (simp add: power_int_minus divide_inverse)
  have "\<bar>y - of_int n\<bar> * 2 ^ N < (1 / 2 ^ N / 2) * 2 ^ N"
    using assms(4) unfolding u by (simp only: mult_less_cancel_right_pos zero_less_power zero_less_numeral)
  then have "\<bar>y - of_int n\<bar> * \<bar>2 ^ N\<bar> < 1 / 2" by simp
  then have "\<bar>(y - of_int n) * 2 ^ N\<bar> < 1 / 2" by (simp only: abs_mult)
  then have "\<bar>y * 2 ^ N - of_int (n * 2 ^ N)\<bar> < 1 / 2" by (simp add: algebra_simps)
  then have r: "round_half_even (y * 2 ^ N) = n * 2 ^ N" by (rule round_half_even_near)
  have "fl64 y = of_int (round_half_even (y / (1 / 2 ^ N))) * (1 / 2 ^ N)"
    unfolding fl64_eqI [OF assms(1,2)] u ..
  also have "\<dots> = of_int (round_half_even (y * 2 ^ N)) / 2 ^ N" by simp
  also have "\<dots> = of_int n" unfolding r by simp
  finally show ?thesis .
qed

lemma fl64_div_mul_255:
  fixes i :: nat and k :: int
  assumes x: "2 powi k \<le> (of_nat i :: rat) / 255" "(of_nat i :: rat) / 255 < 2 powi (k + 1)"
    and lo: "2 powi (k + 8) + 1 \<le> (of_nat i :: rat)"
    and hi: "(of_nat i :: rat) + 1 \<le> 2 powi (k + 9)"
    and k: "k \<le> 0"
  shows "fl64 (fl64 (of_nat i / 255) * 255) = of_nat i"
proof -
  define x :: rat where "x = of_nat i / 255"
  have x0: "0 < x"
    using x(1) zero_less_power_int [of "2::rat" k] unfolding x_def by linarith
  have kx: "ilog2 x = k" unfolding x_def using x by (rule ilog2_eqI)
  define d :: rat where "d = 2 powi (k - 52) / 2"
  have err: "\<bar>fl64 x - x\<bar> \<le> d"
    using fl64_abs_err [OF x0] unfolding kx d_def .
  have "(2::rat) powi (k - 52) \<le> 2 powi (- 52)"
    using k by (intro power_int_increasing) simp_all
  then have d1: "255 * d < 1" unfolding d_def by (simp add: power_int_minus)
  have d0: "0 < d" unfolding d_def by simp
  define y :: rat where "y = fl64 x * 255"
  have e: "y - of_nat i = 255 * (fl64 x - x)" unfolding y_def x_def by simp
  have "\<bar>y - of_nat i\<bar> = \<bar>255 * (fl64 x - x)\<bar>" by (simp only: e)
  also have "\<dots> = \<bar>255\<bar> * \<bar>fl64 x - x\<bar>" by (rule abs_mult)
  finally have "\<bar>y - of_nat i\<bar> = 255 * \<bar>fl64 x - x\<bar>" by simp
  then have yi: "\<bar>y - of_nat i\<bar> \<le> 255 * d" using err by simp
  have ylo: "2 powi (k + 8) \<le> y" using lo yi d1 by linarith
  have "y < 2 powi (k + 9)" using hi yi d1 by linarith
  then have yhi: "y < 2 powi (k + 8 + 1)" by (simp add: add.commute add.left_commute)
  have "(2::rat) powi (k + 8 - 52) = 2 powi (k - 52) * 2 powi 8"
    using power_int_add [of "2::rat" "k - 52" 8] by (simp add: algebra_simps)
  then have "(2::rat) powi (k + 8 - 52) / 2 = 256 * d" unfolding d_def by simp
  then have "\<bar>y - of_int (int i)\<bar> < 2 powi (k + 8 - 52) / 2"
    using yi d0 by simp
  moreover have "k + 8 \<le> 52" using k by simp
  ultimately have "fl64 y = of_int (int i)"
    using ylo yhi by (intro fl64_near_int [of "k + 8"])
  then show ?thesis unfolding y_def x_def by simp
qed

lemma fl64_one: "fl64 1 = 1"
  by (simp add: fl64_eqI [of 0] fl64_eval)

lemma fl64_255: "fl64 255 = 255"
  by (simp add: fl64_eqI [of 7] fl64_eval)

lemma fl64_roundtrip_1: "fl64 (fl64 (1 / 255) * 255) = 1"
  by (simp add: fl64_eqI [of "-8"] fl64_eqI [of "-1"] fl64_eval)

lemma fl64_roundtrip_2: "fl64 (fl64 (2 / 255) * 255) = 2"
  by (simp add: fl64_eqI [of "-7"] fl64_eqI [of "0"] fl64_eval)

lemma fl64_roundtrip_4: "fl64 (fl64 (4 / 255) * 255) = 4"
  by (simp add: fl64_eqI [of "-6"] fl64_eqI [of "1"] fl64_eval)

lemma fl64_roundtrip_8: "fl64 (fl64 (8 / 255) * 255) = 8"
  by (simp add: fl64_eqI [of "-5"] fl64_eqI [of "2"] fl64_eval)

lemma fl64_roundtrip_16: "fl64 (fl64 (16 / 255) * 255) = 16"
  by (simp add: fl64_eqI [of "-4"] fl64_eqI [of "3"] fl64_eval)

lemma fl64_roundtrip_32: "fl64 (fl64 (32 / 255) * 255) = 32"
  by (simp add: fl64_eqI [of "-3"] fl64_eqI [of "4"] fl64_eval)

lemma fl64_roundtrip_64: "fl64 (fl64 (64 / 255) * 255) = 64"
  by (simp add: fl64_eqI [of "-2"] fl64_eqI [of "5"] fl64_eval)

lemma fl64_roundtrip_128: "fl64 (fl64 (128 / 255) * 255) = 128"
  by (simp add: fl64_eqI [of "-1"] fl64_eqI [of "6"] fl64_eval)

lemma fl64_roundtrip_255:
  assumes "i \<le> 255"
  shows "fl64 (fl64 (of_nat i / 255) * 255) = of_nat i"
proof -
  consider "i = 0"
    | "i = 1"
    | "i = 2"
    | "2 < i \<and> i < 4"
    | "i = 4"
    | "4 < i \<and> i < 8"
    | "i = 8"
    | "8 < i \<and> i < 16"
    | "i = 16"
    | "16 < i \<and> i < 32"
    | "i = 32"
    | "32 < i \<and> i < 64"
    | "i = 64"
    | "64 < i \<and> i < 128"
    | "i = 128"
    | "128 < i \<and> i < 255"
    | "i = 255"
    using assms by atomize_elim arith
  then show ?thesis
  proof cases
    case 1
    then show ?thesis by (simp add: fl64_zero)
  next
    case 2
    then show ?thesis using fl64_roundtrip_1 by simp
  next
    case 3
    then show ?thesis using fl64_roundtrip_2 by simp
  next
    case 4
    then have "(3::rat) \<le> of_nat i" and "(of_nat i :: rat) \<le> 3" by simp_all
    then show ?thesis
      by (intro fl64_div_mul_255 [of "-7"]) (simp_all add: power_int_minus)
  next
    case 5
    then show ?thesis using fl64_roundtrip_4 by simp
  next
    case 6
    then have "(5::rat) \<le> of_nat i" and "(of_nat i :: rat) \<le> 7" by simp_all
    then show ?thesis
      by (intro fl64_div_mul_255 [of "-6"]) (simp_all add: power_int_minus)
  next
    case 7
    then show ?thesis using fl64_roundtrip_8 by simp
  next
    case 8
    then have "(9::rat) \<le> of_nat i" and "(of_nat i :: rat) \<le> 15" by simp_all
    then show ?thesis
      by (intro fl64_div_mul_255 [of "-5"]) (simp_all add: power_int_minus)
  next
    case 9
    then show ?thesis using fl64_roundtrip_16 by simp
  next
    case 10
    then have "(17::rat) \<le> of_nat i" and "(of_nat i :: rat) \<le> 31" by simp_all
    then show ?thesis
      by (intro fl64_div_mul_255 [of "-4"]) (simp_all add: power_int_minus)
  next
    case 11
    then show ?thesis using fl64_roundtrip_32 by simp
  next
    case 12
    then have "(33::rat) \<le> of_nat i" and "(of_nat i :: rat) \<le> 63" by simp_all
    then show ?thesis
      by (intro fl64_div_mul_255 [of "-3"]) (simp_all add: power_int_minus)
  next
    case 13
    then show ?thesis using fl64_roundtrip_64 by simp
  next
    case 14
    then have "(65::rat) \<le> of_nat i" and "(of_nat i :: rat) \<le> 127" by simp_all
    then show ?thesis
      by (intro fl64_div_mul_255 [of "-2"]) (simp_all add: power_int_minus)
  next
    case 15
    then show ?thesis using fl64_roundtrip_128 by simp
  next
    case 16
    then have "(129::rat) \<le> of_nat i" and "(of_nat i :: rat) \<le> 254" by simp_all
    then show ?thesis
      by (intro fl64_div_mul_255 [of "-1"]) (simp_all add: power_int_minus)
  next
    case 17
    then show ?thesis by (simp add: fl64_one fl64_255)
  qed
qed

lemma fl64_idem:
  assumes "0 \<le> x"
  shows "fl64 (fl64 x) = fl64 x"
proof (cases "x = 0")
  case True
  then show ?thesis by (simp add: fl64_zero)
next
  case False
  then have x: "0 < x" using assms by linarith
  define e where "e = ilog2 x"
  define u :: rat where "u = 2 powi (e - 52)"
  define r where "r = round_half_even (x / u)"
  have u: "0 < u" by (simp add: u_def)
  have f: "fl64 x = of_int r * u"
    unfolding r_def u_def e_def by (rule fl64_pos [OF x])
  have lo: "2 powi e \<le> fl64 x" unfolding e_def by (rule fl64_ge_pow [OF x])
  have hi: "fl64 x \<le> 2 powi (e + 1)" unfolding e_def by (rule fl64_le_pow [OF x])
  show ?thesis
  proof (cases "fl64 x < 2 powi (e + 1)")
    case True
    have "fl64 (fl64 x) = of_int (round_half_even (fl64 x / u)) * u"
      unfolding u_def using lo True by (rule fl64_eqI)
    also have "fl64 x / u = of_int r" using u by (simp add: f)
    also have "round_half_even (of_int r :: rat) = r" by (rule rhe_of_int)
    finally show ?thesis by (simp only: f)
  next
    case False
    then have eq: "fl64 x = 2 powi (e + 1)" using hi by linarith
    have p: "(2::rat) powi (e + 1) = 2 ^ 52 * 2 powi (e + 1 - 52)" by (rule ulp_times)
    have "(2::rat) powi (e + 1) < 2 powi (e + 1 + 1)"
      by (rule power_int_strict_increasing) simp_all
    then have "fl64 (2 powi (e + 1))
        = of_int (round_half_even ((2::rat) powi (e + 1) / 2 powi (e + 1 - 52)))
          * 2 powi (e + 1 - 52)"
      by (intro fl64_eqI) simp_all
    also have "(2::rat) powi (e + 1) / 2 powi (e + 1 - 52) = of_int (2 ^ 52)"
      using p by simp
    also have "round_half_even (of_int (2 ^ 52) :: rat) = 2 ^ 52" by (rule rhe_of_int)
    finally have "fl64 (2 powi (e + 1)) = 2 powi (e + 1)" using p by simp
    then show ?thesis by (simp only: eq)
  qed
qed

lemma fl64_le_one:
  assumes "0 \<le> x" and "x \<le> 1"
  shows "0 \<le> fl64 x" and "fl64 x \<le> 1"
proof -
  show "0 \<le> fl64 x" using fl64_mono [of 0 x] assms(1) by (simp add: fl64_zero)
  show "fl64 x \<le> 1" using fl64_mono [OF assms] by (simp add: fl64_one)
qed

lemma fl64_times_255:
  assumes "0 \<le> p" and "p \<le> 1"
  shows "0 \<le> fl64 (p * 255)" and "fl64 (p * 255) \<le> 255"
proof -
  have a: "0 \<le> p * 255" using assms(1) by simp
  show "0 \<le> fl64 (p * 255)" using fl64_mono [of 0 "p * 255"] a by (simp add: fl64_zero)
  have "p * 255 \<le> 255" using assms(2) by simp
  then show "fl64 (p * 255) \<le> 255" using fl64_mono [OF a, of 255] by (simp add: fl64_255)
qed

lemma truncated_product_zero:
  fixes m M :: nat
  assumes "1500 < M" and "M < 2 ^ 50" and "m * 1500 < M"
  shows "py_int (fl64 (of_nat m * fl64 (1500 / of_nat M))) = 0"
proof (cases "m = 0")
  case True
  then show ?thesis by (simp add: fl64_zero py_int_def)
next
  case False
  define q :: rat where "q = 1500 / of_nat M"
  define s where "s = fl64 q"
  define c :: rat where "c = 1 + 1 / 2 ^ 53"
  define x where "x = of_nat m * s"
  have M0: "(0::rat) < of_nat M" using assms(1) by simp
  have m0: "(0::rat) < of_nat m" using False by simp
  have q0: "0 < q" unfolding q_def using M0 by simp
  have s0: "0 < s" unfolding s_def by (rule fl64_gt_zero [OF q0])
  have s1: "s \<le> q * c" unfolding s_def c_def by (rule fl64_upper [OF q0])
  have x0: "0 < x" unfolding x_def using m0 s0 by (rule mult_pos_pos)
  have c0: "0 < c" unfolding c_def by simp
  have "(of_nat (m * 1500 + 1) :: rat) \<le> of_nat M"
    using assms(3) by (simp only: of_nat_le_iff)
  then have "(of_nat m :: rat) * 1500 \<le> of_nat M - 1" by simp
  then have "of_nat m * 1500 / of_nat M \<le> ((of_nat M :: rat) - 1) / of_nat M"
    using M0 by (simp only: divide_right_mono less_imp_le)
  then have a: "of_nat m * q \<le> 1 - 1 / of_nat M"
    unfolding q_def using M0 by (simp add: field_simps)
  have "(of_nat M :: rat) < of_nat (2 ^ 50)" using assms(2) by (simp only: of_nat_less_iff)
  then have "(of_nat M :: rat) < 2 ^ 50" by simp
  then have "1 / (2 ^ 50 :: rat) < 1 / of_nat M"
    using M0 by (simp add: field_simps)
  then have b: "1 - 1 / (of_nat M :: rat) < 1 - 1 / 2 ^ 50" by simp
  have "fl64 x \<le> x * c" unfolding c_def by (rule fl64_upper [OF x0])
  also have "x \<le> of_nat m * (q * c)"
    unfolding x_def using s1 m0 by (simp only: mult_left_mono less_imp_le)
  then have "x * c \<le> of_nat m * (q * c) * c"
    using c0 by (simp only: mult_right_mono less_imp_le)
  also have "of_nat m * (q * c) * c = (of_nat m * q) * (c * c)" by simp
  also have "\<dots> \<le> (1 - 1 / 2 ^ 50) * (c * c)"
    using a b c0 by (intro mult_right_mono) simp_all
  also have "\<dots> < 1" unfolding c_def by simp
  finally have "fl64 x < 1" .
  moreover have "0 \<le> fl64 x" using fl64_gt_zero [OF x0] by simp
  ultimately have "\<lfloor>fl64 x\<rfloor> = 0" by (simp add: floor_eq_iff)
  then show ?thesis
    using \<open>0 \<le> fl64 x\<close> unfolding x_def s_def q_def by (simp add: py_int_def)
qed






lemma fl64_scale_73500: "fl64 (1500 / 73500) = 5882252574524729 / 288230376151711744"
  by (simp add: fl64_eqI [of "-6"] fl64_eval)

lemma fl64_49_scale:
  "fl64 (49 * (5882252574524729 / 288230376151711744)) = 9007199254740991 / 9007199254740992"
  by (simp add: fl64_eqI [of "-1"] fl64_eval)

lemma fl64_73500_scale:
  "fl64 (73500 * (5882252574524729 / 288230376151711744)) = 6597069766655999 / 4398046511104"
  by (simp add: fl64_eqI [of 10] fl64_eval)

section \<open>Shapes along the pipeline\<close>

lemma u8_real_of_int: "u8_real b = of_int (uint b)"
  by (simp add: u8_real_def)

lemma uint_u8_range: "0 \<le> uint (b::u8) \<and> uint b \<le> 255"
  using uint_lt2p [of b] by simp

lemma saturate_u8_real: "saturate_cast_uchar (u8_real b) = b"
proof -
  have "round_half_even (u8_real b) = uint b"
    by (simp only: u8_real_of_int rhe_of_int)
  moreover have "max 0 (min 255 (uint b)) = uint b"
    using uint_u8_range [of b] by simp
  ultimately show ?thesis
    by (simp only: saturate_cast_uchar_def word_of_int_uint)
qed

lemma same_shape_px: "same_shape g (px g) = g"
  by (simp add: same_shape_def)

lemma shape_same_shape [simp]: "shape (same_shape g f) = shape g"
  by (simp add: shape_def same_shape_def)

lemma px_same_shape [simp]: "px (same_shape g f) = f"
  by (simp add: same_shape_def)

lemma shape_simple_white_balance [simp]: "shape (simple_white_balance cv im) = shape im"
  by (simp add: simple_white_balance_def cvtColor_BGR2LAB_def cvtColor_LAB2BGR_def
      equalizeHist_def split_def merge_def Let_def)

lemma shape_sharpen_image [simp]: "shape (sharpen_image cv im s) = shape im"
  by (simp add: sharpen_image_def addWeighted_def)

lemma shape_local_contrast [simp]: "shape (local_contrast cv im) = shape im"
  by (simp add: local_contrast_def cvtColor_BGR2LAB_def cvtColor_LAB2BGR_def
      createCLAHE_apply_def split_def merge_def Let_def)


lemma adaptive_gamma_pos: "0 < adaptive_gamma m"
  by (simp add: adaptive_gamma_def)

lemma enhance_low_light_after_guard:
  assumes "downscale_guard cv im0 = Inr im"
  shows "enhance_low_light cv im0 =
           Inr (sharpen_image cv
                  (LUT (local_contrast cv im)
                     (gamma_table cv (adaptive_gamma
                        (mean_u8 (cvtColor_BGR2GRAY cv (local_contrast cv im))))))
                  0.4)"
  using adaptive_gamma_pos [of "mean_u8 (cvtColor_BGR2GRAY cv (local_contrast cv im))"]
  by (simp add: enhance_low_light_def assms apply_gamma_correction_def Let_def)

lemma shape_LUT [simp]: "shape (LUT src t) = shape src"
  by (simp add: LUT_def)

lemma shape_enhance_low_light:
  assumes "downscale_guard cv im0 = Inr im"
  shows "map_sum id shape (enhance_low_light cv im0) = Inr (shape im)"
  by (simp add: enhance_low_light_after_guard [OF assms])

lemma shape_remove_smoke_noise: "shape (remove_smoke_noise cv im) = shape im"
  by (simp add: remove_smoke_noise_def bilateralFilter_def fastNlMeansDenoisingColored_def Let_def)

lemma shape_remove_fog: "shape (remove_fog cv im) = shape im"
  by (simp add: remove_fog_def Let_def to_uint8_def recover_radiance_def to_float_def)

lemma enhance_low_light_small:
  assumes "max (height im) (width im) \<le> 1500"
  shows "map_sum id shape (enhance_low_light cv im) = Inr (shape im)"
proof -
  have "\<not> 1500 < max (height im) (width im)"
    using assms by linarith
  then have "downscale_guard cv im = Inr im"
    by (simp add: downscale_guard_def Let_def)
  then show ?thesis by (rule shape_enhance_low_light)
qed

lemma enhance_low_light_resize_error:
  assumes "1500 < max (height im) (width im)"
    and "fst (resize_target (height im) (width im)) \<le> 0
         \<or> snd (resize_target (height im) (width im)) \<le> 0"
  shows "enhance_low_light cv im = Inl Cv2Error"
proof -
  obtain w h where t: "resize_target (height im) (width im) = (w, h)"
    by (cases "resize_target (height im) (width im)")
  have "downscale_guard cv im = Inl Cv2Error"
    using assms by (auto simp add: downscale_guard_def Let_def resize_def t)
  then show ?thesis by (simp add: enhance_low_light_def)
qed

lemma enhance_low_light_resized:
  assumes "1500 < max (height im) (width im)"
    and "resize_target (height im) (width im) = (w, h)" and "0 < w" and "0 < h"
  shows "map_sum id shape (enhance_low_light cv im) = Inr (nat h, nat w)"
proof -
  have "downscale_guard cv im =
          Inr \<lparr>height = nat h, width = nat w, px = resize_px cv im (nat w, nat h)\<rparr>"
    using assms by (simp add: downscale_guard_def Let_def resize_def)
  from shape_enhance_low_light [OF this] show ?thesis by (simp add: shape_def)
qed

section \<open>The claims\<close>

text \<open>
  C1 (dimensions). \<^verbatim>\<open>remove_fog\<close> and \<^verbatim>\<open>remove_smoke_noise\<close> keep the shape of their input
  (\<open>shape_remove_fog\<close>, \<open>shape_remove_smoke_noise\<close>) and so does \<^verbatim>\<open>enhance_low_light\<close> when
  neither side exceeds 1500 (\<open>enhance_low_light_small\<close>). Above 1500 the claim says that
  the result is scaled so that the longer side is 1500. The code does not do that on
  two kinds of input, evaluated here: on an image of 2000 rows and 1 column the
  truncated target width is 0 and \<^verbatim>\<open>cv2.resize\<close> raises, so no buffer is returned; on an
  image of 100 rows and 2147 columns the float product \<open>2147 * (1500 / 2147)\<close> is just
  below 1500 and truncates to 1499, so the longer side of the result is 1499.
\<close>

theorem enhance_low_light_shape_failures:
  "map_sum id shape (enhance_low_light cv \<lparr>height = 2000, width = 1, px = f\<rparr>) = Inl Cv2Error
  \<and> map_sum id shape (enhance_low_light cv \<lparr>height = 100, width = 2147, px = f\<rparr>) = Inr (69, 1499)"
proof
  show "map_sum id shape (enhance_low_light cv \<lparr>height = 2000, width = 1, px = f\<rparr>) = Inl Cv2Error"
    using enhance_low_light_resize_error [of "\<lparr>height = 2000, width = 1, px = f\<rparr>" cv]
      resize_target_2000_1
    by simp
  show "map_sum id shape (enhance_low_light cv \<lparr>height = 100, width = 2147, px = f\<rparr>) = Inr (69, 1499)"
    using enhance_low_light_resized [of "\<lparr>height = 100, width = 2147, px = f\<rparr>" 1499 69 cv]
      resize_target_100_2147
    by simp
qed

text \<open>
  C9 (unknown mode). For every mode outside \<open>low_light\<close>, \<open>fog\<close> and \<open>smoke\<close>, an absent
  mode included, the dispatch returns the image it was given, and does not fail.
\<close>

theorem process_unknown_mode_identity:
  "mode \<notin> {Some ''low_light'', Some ''fog'', Some ''smoke''} \<Longrightarrow> process cv mode im = Inr im"
  by (simp add: process_def)

theorem process_unknown_mode_identity_witness:
  "Some ''unknown_mode'' \<notin> {Some ''low_light'', Some ''fog'', Some ''smoke''} \<and>
   process plain_cv (Some ''unknown_mode'') \<lparr>height = 2, width = 2, px = \<lambda>y x. (1, 2, 3)\<rparr>
     = Inr \<lparr>height = 2, width = 2, px = \<lambda>y x. (1, 2, 3)\<rparr>"
  using process_unknown_mode_identity
    [of "Some ''unknown_mode''" plain_cv "\<lparr>height = 2, width = 2, px = \<lambda>y x. (1, 2, 3)\<rparr>"]
  by simp

text \<open>
  C7 (sharpening with strength 0). \<^verbatim>\<open>sharpen_image\<close> with strength 0 returns its input,
  whatever the blur computes: the weights are 1 and 0, and rounding and saturating a
  \<^verbatim>\<open>uint8\<close> value gives the value back. The equality is exact in the model, which is
  within every epsilon.
\<close>

theorem sharpen_image_strength_zero: "sharpen_image cv im 0 = im"
proof -
  have "(\<lambda>y x. case (px im y x, px (GaussianBlur cv im (0, 0) 3) y x) of
           ((a0, a1, a2), (b0, b1, b2)) \<Rightarrow>
             (saturate_cast_uchar (u8_real a0 * (1 + 0) + u8_real b0 * (- 0) + 0),
              saturate_cast_uchar (u8_real a1 * (1 + 0) + u8_real b1 * (- 0) + 0),
              saturate_cast_uchar (u8_real a2 * (1 + 0) + u8_real b2 * (- 0) + 0))) = px im"
  proof (intro ext)
    fix y x
    obtain a0 a1 a2 where a: "px im y x = (a0, a1, a2)"
      by (cases "px im y x") auto
    obtain b0 b1 b2 where b: "px (GaussianBlur cv im (0, 0) 3) y x = (b0, b1, b2)"
      by (cases "px (GaussianBlur cv im (0, 0) 3) y x") auto
    show "(case (px im y x, px (GaussianBlur cv im (0, 0) 3) y x) of
           ((a0, a1, a2), (b0, b1, b2)) \<Rightarrow>
             (saturate_cast_uchar (u8_real a0 * (1 + 0) + u8_real b0 * (- 0) + 0),
              saturate_cast_uchar (u8_real a1 * (1 + 0) + u8_real b1 * (- 0) + 0),
              saturate_cast_uchar (u8_real a2 * (1 + 0) + u8_real b2 * (- 0) + 0))) = px im y x"
      by (simp add: a b saturate_u8_real)
  qed
  then show ?thesis
    by (simp add: sharpen_image_def addWeighted_def same_shape_px)
qed

text \<open>
  C3 (adaptive gamma). Let \<open>im\<close> be the image after the downscale guard and \<open>m\<close> the mean
  grey value of the buffer produced by white balance and CLAHE. Then
  \<^verbatim>\<open>enhance_low_light\<close> applies \<^verbatim>\<open>apply_gamma_correction\<close> to that buffer with gamma 1.8
  when \<open>m < 60\<close>, with 1.5 when \<open>60 \<le> m < 90\<close> and with 1.2 when \<open>90 \<le> m\<close>, and sharpens
  the result with strength 0.4.
\<close>

theorem adaptive_gamma_by_mean_brightness:
  assumes "downscale_guard cv im0 = Inr im"
    and "m = mean_u8 (cvtColor_BGR2GRAY cv (local_contrast cv im))"
  shows "(m < 60 \<longrightarrow> enhance_low_light cv im0 =
            map_sum id (\<lambda>g. sharpen_image cv g 0.4)
              (apply_gamma_correction cv (local_contrast cv im) 1.8))
       \<and> (60 \<le> m \<and> m < 90 \<longrightarrow> enhance_low_light cv im0 =
            map_sum id (\<lambda>g. sharpen_image cv g 0.4)
              (apply_gamma_correction cv (local_contrast cv im) 1.5))
       \<and> (90 \<le> m \<longrightarrow> enhance_low_light cv im0 =
            map_sum id (\<lambda>g. sharpen_image cv g 0.4)
              (apply_gamma_correction cv (local_contrast cv im) 1.2))"
  using assms
  by (simp add: enhance_low_light_def adaptive_gamma_def apply_gamma_correction_def Let_def)

theorem adaptive_gamma_by_mean_brightness_witness:
  "downscale_guard plain_cv \<lparr>height = 2, width = 2, px = \<lambda>y x. (10, 20, 30)\<rparr>
     = Inr \<lparr>height = 2, width = 2, px = \<lambda>y x. (10, 20, 30)\<rparr>
   \<and> mean_u8 (cvtColor_BGR2GRAY plain_cv
         (local_contrast plain_cv \<lparr>height = 2, width = 2, px = \<lambda>y x. (10, 20, 30)\<rparr>)) = 20
   \<and> enhance_low_light plain_cv \<lparr>height = 2, width = 2, px = \<lambda>y x. (10, 20, 30)\<rparr> =
        map_sum id (\<lambda>g. sharpen_image plain_cv g 0.4)
          (apply_gamma_correction plain_cv
             (local_contrast plain_cv \<lparr>height = 2, width = 2, px = \<lambda>y x. (10, 20, 30)\<rparr>) 1.8)"
proof -
  let ?I = "\<lparr>height = 2, width = 2, px = \<lambda>y x. (10, 20, 30)\<rparr> :: image"
  have g: "downscale_guard plain_cv ?I = Inr ?I"
    by (simp add: downscale_guard_def)
  have m: "mean_u8 (cvtColor_BGR2GRAY plain_cv (local_contrast plain_cv ?I)) = 20"
    by (simp add: mean_u8_def ravel_def flat_px_def cvtColor_BGR2GRAY_def local_contrast_def
        simple_white_balance_def cvtColor_BGR2LAB_def cvtColor_LAB2BGR_def equalizeHist_def
        createCLAHE_apply_def split_def merge_def same_shape_def plain_cv_def u8_real_def Let_def
        upt_rec comp_def)
  show ?thesis
    using adaptive_gamma_by_mean_brightness [OF g refl] g m by simp
qed

lemma resize_target_73500_49: "resize_target 73500 49 = (0, 1499)"
proof -
  have s: "fl64 (1500 / of_nat (max 73500 49)) = 5882252574524729 / 288230376151711744"
    using fl64_scale_73500 by simp
  have w: "fl64 (of_nat 49 * (5882252574524729 / 288230376151711744))
             = 9007199254740991 / 9007199254740992"
    using fl64_49_scale by simp
  have h: "fl64 (of_nat 73500 * (5882252574524729 / 288230376151711744))
             = 6597069766655999 / 4398046511104"
    using fl64_73500_scale by simp
  show ?thesis
    unfolding resize_target_def Let_def s w h
    by (simp add: py_int_def floor_rat_numeral_div)
qed

lemma spec_resize_target_100_2147: "spec_resize_target 100 2147 = (1500, 69)"
  by (simp add: spec_resize_target_def floor_rat_numeral_div)

lemma spec_resize_target_73500_49: "spec_resize_target 73500 49 = (1, 1500)"
  by (simp add: spec_resize_target_def floor_rat_numeral_div)

lemma resize_target_min_zero:
  assumes "1500 < max h w" and "max h w < 2 ^ 50" and "min h w * 1500 < max h w"
  shows "(w \<le> h \<longrightarrow> fst (resize_target h w) = 0)
       \<and> (h \<le> w \<longrightarrow> snd (resize_target h w) = 0)"
proof (intro conjI impI)
  assume "w \<le> h"
  then have "min h w = w" by (rule min_absorb2)
  then have "w * 1500 < max h w" using assms(3) by simp
  from truncated_product_zero [OF assms(1,2) this]
  show "fst (resize_target h w) = 0" by (simp add: resize_target_def Let_def)
next
  assume "h \<le> w"
  then have "min h w = h" by (rule min_absorb1)
  then have "h * 1500 < max h w" using assms(3) by simp
  from truncated_product_zero [OF assms(1,2) this]
  show "snd (resize_target h w) = 0" by (simp add: resize_target_def Let_def)
qed

text \<open>
  C10 (truncated resize target). The claim gives the target as
  \<open>(int(W \<cdot> 1500 / max(W, H)), int(H \<cdot> 1500 / max(W, H)))\<close> (\<open>spec_resize_target\<close>). Lines 30
  to 32 compute \<open>scale = 1500 / max(h, w)\<close> first and truncate the products
  \<open>w * scale\<close> and \<open>h * scale\<close>, each operation rounded to binary64, and the result can be
  one less than the claimed one: for 100 rows and 2147 columns the code asks for the
  width 1499, the claim for 1500.

  Amended: when the longer side exceeds 1500, the size passed to \<^verbatim>\<open>cv2.resize\<close> is
  \<open>(int(w * scale), int(h * scale))\<close> with \<open>scale = 1500 / max(h, w)\<close>, quotient and
  products in binary64. Whenever \<open>min(W, H) \<cdot> 1500 / max(W, H) < 1\<close> the component of the
  shorter side is 0, and whenever a component is 0 \<^verbatim>\<open>enhance_low_light\<close> ends in the
  error of \<^verbatim>\<open>cv2.resize\<close> and returns no buffer. The bound \<open>2 ^ 50\<close> on the longer side
  keeps the two roundings below the gap to 1. The condition is sufficient, not
  necessary: 73500 rows and 49 columns have the ratio 1 and the target width 0
  (\<open>resize_target_73500_49\<close>).
\<close>

theorem resize_target_zero_raises:
  assumes "1500 < max (height im) (width im)"
  shows "downscale_guard cv im =
           resize cv im
             (py_int (fl64 (of_nat (width im) * fl64 (1500 / of_nat (max (height im) (width im))))),
              py_int (fl64 (of_nat (height im) * fl64 (1500 / of_nat (max (height im) (width im))))))
       \<and> (max (height im) (width im) < 2 ^ 50
            \<and> min (height im) (width im) * 1500 < max (height im) (width im)
          \<longrightarrow> (width im \<le> height im \<longrightarrow> fst (resize_target (height im) (width im)) = 0)
            \<and> (height im \<le> width im \<longrightarrow> snd (resize_target (height im) (width im)) = 0)
            \<and> enhance_low_light cv im = Inl Cv2Error)
       \<and> (fst (resize_target (height im) (width im)) = 0
            \<or> snd (resize_target (height im) (width im)) = 0
          \<longrightarrow> enhance_low_light cv im = Inl Cv2Error)"
proof (intro conjI impI)
  show "downscale_guard cv im =
           resize cv im
             (py_int (fl64 (of_nat (width im) * fl64 (1500 / of_nat (max (height im) (width im))))),
              py_int (fl64 (of_nat (height im) * fl64 (1500 / of_nat (max (height im) (width im))))))"
    using assms by (simp add: downscale_guard_def resize_target_def Let_def)
next
  assume a: "max (height im) (width im) < 2 ^ 50
            \<and> min (height im) (width im) * 1500 < max (height im) (width im)"
  then show "width im \<le> height im \<Longrightarrow> fst (resize_target (height im) (width im)) = 0"
    using resize_target_min_zero [OF assms] by blast
next
  assume a: "max (height im) (width im) < 2 ^ 50
            \<and> min (height im) (width im) * 1500 < max (height im) (width im)"
  then show "height im \<le> width im \<Longrightarrow> snd (resize_target (height im) (width im)) = 0"
    using resize_target_min_zero [OF assms] by blast
next
  assume a: "max (height im) (width im) < 2 ^ 50
            \<and> min (height im) (width im) * 1500 < max (height im) (width im)"
  then have z: "(width im \<le> height im \<longrightarrow> fst (resize_target (height im) (width im)) = 0)
       \<and> (height im \<le> width im \<longrightarrow> snd (resize_target (height im) (width im)) = 0)"
    using resize_target_min_zero [OF assms] by blast
  have "width im \<le> height im \<or> height im \<le> width im" by linarith
  then have "fst (resize_target (height im) (width im)) \<le> 0
         \<or> snd (resize_target (height im) (width im)) \<le> 0"
    using z by auto
  then show "enhance_low_light cv im = Inl Cv2Error"
    by (rule enhance_low_light_resize_error [OF assms])
next
  assume "fst (resize_target (height im) (width im)) = 0
            \<or> snd (resize_target (height im) (width im)) = 0"
  then have "fst (resize_target (height im) (width im)) \<le> 0
         \<or> snd (resize_target (height im) (width im)) \<le> 0"
    by auto
  then show "enhance_low_light cv im = Inl Cv2Error"
    by (rule enhance_low_light_resize_error [OF assms])
qed

theorem resize_target_zero_raises_witness:
  "1500 < max (height \<lparr>height = 2000, width = 1, px = \<lambda>y x. (0, 0, 0)\<rparr>)
              (width \<lparr>height = 2000, width = 1, px = \<lambda>y x. (0, 0, 0)\<rparr>)
   \<and> max (2000::nat) 1 < 2 ^ 50 \<and> min (2000::nat) 1 * 1500 < max 2000 1
   \<and> resize_target 2000 1 = (0, 1500)
   \<and> enhance_low_light plain_cv \<lparr>height = 2000, width = 1, px = \<lambda>y x. (0, 0, 0)\<rparr>
       = Inl Cv2Error"
proof -
  let ?I = "\<lparr>height = 2000, width = 1, px = \<lambda>y x. (0, 0, 0)\<rparr> :: image"
  have h: "1500 < max (height ?I) (width ?I)" by simp
  have b: "max (height ?I) (width ?I) < 2 ^ 50
            \<and> min (height ?I) (width ?I) * 1500 < max (height ?I) (width ?I)"
    by simp
  have "enhance_low_light plain_cv ?I = Inl Cv2Error"
    using resize_target_zero_raises [OF h, of plain_cv] b by blast
  then show ?thesis
    using resize_target_2000_1 by simp
qed

text \<open>
  The claim as stated fails on the image of 100 rows and 2147 columns: the code asks
  \<^verbatim>\<open>cv2.resize\<close> for \<open>(1499, 69)\<close>, the formula of the claim gives \<open>(1500, 69)\<close>.
\<close>

theorem resize_target_exact_quotient_counterexample:
  "resize_target 100 2147 = (1499, 69) \<and> spec_resize_target 100 2147 = (1500, 69)
   \<and> resize_target 100 2147 \<noteq> spec_resize_target 100 2147"
  by (simp add: resize_target_100_2147 spec_resize_target_100_2147)

section \<open>The gamma table\<close>

lemma uint_word_of_int_u8:
  assumes "0 \<le> k" and "k \<le> 255"
  shows "uint (word_of_int k :: u8) = k"
proof -
  have "k mod 2 ^ LENGTH(8) = k" using assms by simp
  then show ?thesis by (simp only: uint_word_of_int)
qed

lemma uint_astype_uint8:
  fixes v :: "'a::floor_ceiling"
  assumes "0 \<le> v" and "v \<le> 255"
  shows "uint (astype_uint8 v) = \<lfloor>v\<rfloor>"
proof -
  have "0 \<le> \<lfloor>v\<rfloor>" using assms(1) by simp
  moreover have "\<lfloor>v\<rfloor> \<le> 255" using assms(2) by (simp add: floor_le_iff)
  ultimately show ?thesis
    using assms(1) by (simp add: astype_uint8_def py_int_def uint_word_of_int_u8)
qed


lemma gamma_table_nth:
  assumes "i < 256"
  shows "gamma_table cv gamma ! i =
           astype_uint8
             (fl64 (float64_power cv (fl64 (of_nat i / 255)) (fl64 (1 / fl64 gamma)) * 255))"
  using assms by (simp add: gamma_table_def)

lemma gamma_base_range:
  assumes "i < 256"
  shows "0 \<le> fl64 (of_nat i / 255)" and "fl64 (of_nat i / 255) \<le> 1"
proof -
  have "i \<le> 255" using assms by simp
  then have "(of_nat i :: rat) \<le> of_nat 255" by (simp only: of_nat_le_iff)
  then have a: "(of_nat i :: rat) / 255 \<le> 1" by simp
  have b: "0 \<le> (of_nat i :: rat) / 255" by simp
  show "0 \<le> fl64 (of_nat i / 255)" by (rule fl64_le_one [OF b a])
  show "fl64 (of_nat i / 255) \<le> 1" by (rule fl64_le_one [OF b a])
qed

lemma inv_gamma_pos:
  assumes "0 < gamma"
  shows "0 < fl64 (1 / fl64 gamma)"
proof -
  have "0 < fl64 gamma" by (rule fl64_gt_zero [OF assms])
  then have "0 < 1 / fl64 gamma" by simp
  then show ?thesis by (rule fl64_gt_zero)
qed

lemma gamma_arguments_binary64:
  assumes "0 < gamma"
  shows "fl64 (fl64 (of_nat i / 255)) = fl64 (of_nat i / 255)"
    and "fl64 (fl64 (1 / fl64 gamma)) = fl64 (1 / fl64 gamma)"
proof -
  show "fl64 (fl64 (of_nat i / 255)) = fl64 (of_nat i / 255)"
    by (rule fl64_idem) simp
  have "0 < fl64 gamma" by (rule fl64_gt_zero [OF assms])
  then have "0 \<le> 1 / fl64 gamma" by simp
  then show "fl64 (fl64 (1 / fl64 gamma)) = fl64 (1 / fl64 gamma)"
    by (rule fl64_idem)
qed

lemma gamma_power_range:
  assumes "0 < gamma" and "i < 256" and "power_unit_range (float64_power cv)"
  shows "0 \<le> float64_power cv (fl64 (of_nat i / 255)) (fl64 (1 / fl64 gamma))"
    and "float64_power cv (fl64 (of_nat i / 255)) (fl64 (1 / fl64 gamma)) \<le> 1"
  using assms(3) gamma_base_range [OF assms(2)] inv_gamma_pos [OF assms(1)]
    gamma_arguments_binary64 [OF assms(1)]
  unfolding power_unit_range_def by blast+

lemma gamma_value_range:
  assumes "0 < gamma" and "i < 256" and "power_unit_range (float64_power cv)"
  shows "0 \<le> fl64 (float64_power cv (fl64 (of_nat i / 255)) (fl64 (1 / fl64 gamma)) * 255)"
    and "fl64 (float64_power cv (fl64 (of_nat i / 255)) (fl64 (1 / fl64 gamma)) * 255) \<le> 255"
  by (rule fl64_times_255 [OF gamma_power_range [OF assms]])+

lemma uint_gamma_table:
  assumes "0 < gamma" and "i < 256" and "power_unit_range (float64_power cv)"
  shows "uint (gamma_table cv gamma ! i) =
           \<lfloor>fl64 (float64_power cv (fl64 (of_nat i / 255)) (fl64 (1 / fl64 gamma)) * 255)\<rfloor>"
  by (simp only: gamma_table_nth [OF assms(2)]
      uint_astype_uint8 [OF gamma_value_range [OF assms]])


lemma float64_power_plain_cv: "float64_power plain_cv x y = fl64 (x ^ nat \<lfloor>y\<rfloor>)"
  by (simp add: plain_cv_def)

lemma power_unit_range_plain_cv: "power_unit_range (float64_power plain_cv)"
  unfolding power_unit_range_def float64_power_plain_cv
proof (intro allI impI)
  fix x y :: rat
  assume a: "fl64 x = x \<and> fl64 y = y \<and> 0 \<le> x \<and> x \<le> 1 \<and> 0 < y"
  have "0 \<le> x ^ nat \<lfloor>y\<rfloor>" using a by simp
  moreover have "x ^ nat \<lfloor>y\<rfloor> \<le> 1" using a by (simp add: power_le_one)
  ultimately show "0 \<le> fl64 (x ^ nat \<lfloor>y\<rfloor>) \<and> fl64 (x ^ nat \<lfloor>y\<rfloor>) \<le> 1"
    using fl64_le_one by blast
qed

lemma power_contract_plain_cv: "power_contract (float64_power plain_cv)"
  unfolding power_contract_def
proof (intro conjI allI impI)
  show "power_unit_range (float64_power plain_cv)" by (rule power_unit_range_plain_cv)
next
  fix x x' y :: rat
  assume a: "fl64 x = x \<and> fl64 x' = x' \<and> fl64 y = y
        \<and> 0 \<le> x \<and> x \<le> x' \<and> x' \<le> 1 \<and> 0 < y"
  have "0 \<le> x ^ nat \<lfloor>y\<rfloor>" using a by simp
  moreover have "x ^ nat \<lfloor>y\<rfloor> \<le> x' ^ nat \<lfloor>y\<rfloor>" using a by (simp add: power_mono)
  ultimately show "float64_power plain_cv x y \<le> float64_power plain_cv x' y"
    unfolding float64_power_plain_cv by (rule fl64_mono)
next
  fix x :: rat
  assume "fl64 x = x \<and> 0 \<le> x \<and> x \<le> 1"
  then show "float64_power plain_cv x 1 = x"
    by (simp add: float64_power_plain_cv)
qed







text \<open>
  C6 (monotone, identity at gamma 1). When the library's power, on binary64 arguments,
  keeps the unit interval, does not decrease when the base grows and returns the base
  for the exponent 1 (\<open>power_contract\<close>), then for every \<open>gamma > 0\<close> the table is non-decreasing on
  \<open>[0, 255]\<close>, and the table of \<open>gamma = 1\<close> maps every \<open>i\<close> in \<open>[0, 255]\<close> to \<open>i\<close> exactly:
  the binary64 quotient \<open>i / 255\<close> times 255 rounds back to \<open>i\<close> for each of the 256
  values (\<open>fl64_roundtrip_255\<close>).
\<close>

theorem gamma_table_monotone_identity:
  assumes "power_contract (float64_power cv)"
  shows "(0 < gamma \<and> i \<le> j \<and> j \<le> 255 \<longrightarrow> gamma_table cv gamma ! i \<le> gamma_table cv gamma ! j)
   \<and> (i \<le> 255 \<longrightarrow> unat (gamma_table cv 1 ! i) = i)"
proof (intro conjI impI)
  have r: "power_unit_range (float64_power cv)"
    using assms by (simp add: power_contract_def)
  assume a: "0 < gamma \<and> i \<le> j \<and> j \<le> 255"
  then have g: "0 < gamma" and ij: "i \<le> j" and i: "i < 256" and j: "j < 256" by simp_all
  define inv_gamma where "inv_gamma = fl64 (1 / fl64 gamma)"
  define bi bj :: rat where "bi = fl64 (of_nat i / 255)" and "bj = fl64 (of_nat j / 255)"
  have "(of_nat i :: rat) \<le> of_nat j" using ij by (simp only: of_nat_le_iff)
  then have "(of_nat i :: rat) / 255 \<le> of_nat j / 255" by simp
  then have b: "bi \<le> bj" unfolding bi_def bj_def by (intro fl64_mono) simp_all
  have bi0: "0 \<le> bi" unfolding bi_def by (rule gamma_base_range [OF i])
  have bj1: "bj \<le> 1" unfolding bj_def by (rule gamma_base_range [OF j])
  have inv: "0 < inv_gamma" unfolding inv_gamma_def by (rule inv_gamma_pos [OF g])
  have f: "fl64 bi = bi" "fl64 bj = bj" "fl64 inv_gamma = inv_gamma"
    unfolding bi_def bj_def inv_gamma_def by (rule gamma_arguments_binary64 [OF g])+
  have "float64_power cv bi inv_gamma \<le> float64_power cv bj inv_gamma"
    using assms bi0 b bj1 inv f unfolding power_contract_def by blast
  then have "float64_power cv bi inv_gamma * 255 \<le> float64_power cv bj inv_gamma * 255"
    by simp
  moreover have "0 \<le> float64_power cv bi inv_gamma * 255"
    using gamma_power_range(1) [OF g i r] unfolding bi_def inv_gamma_def by simp
  ultimately have "fl64 (float64_power cv bi inv_gamma * 255)
      \<le> fl64 (float64_power cv bj inv_gamma * 255)"
    by (intro fl64_mono)
  then have "\<lfloor>fl64 (float64_power cv bi inv_gamma * 255)\<rfloor>
      \<le> \<lfloor>fl64 (float64_power cv bj inv_gamma * 255)\<rfloor>"
    by (rule floor_mono)
  then show "gamma_table cv gamma ! i \<le> gamma_table cv gamma ! j"
    unfolding bi_def bj_def inv_gamma_def
    by (simp only: word_le_def uint_gamma_table [OF g i r] uint_gamma_table [OF g j r])
next
  have r: "power_unit_range (float64_power cv)"
    using assms by (simp add: power_contract_def)
  assume "i \<le> 255"
  then have i: "i < 256" by simp
  define b :: rat where "b = fl64 (of_nat i / 255)"
  have b0: "0 \<le> b" and b1: "b \<le> 1" unfolding b_def by (rule gamma_base_range [OF i])+
  have "fl64 b = b" unfolding b_def by (rule fl64_idem) simp
  then have p: "float64_power cv b 1 = b"
    using assms b0 b1 unfolding power_contract_def by blast
  have one: "fl64 (1 / fl64 1) = 1" by (simp add: fl64_one)
  have "uint (gamma_table cv 1 ! i)
      = \<lfloor>fl64 (float64_power cv (fl64 (of_nat i / 255)) (fl64 (1 / fl64 1)) * 255)\<rfloor>"
    by (rule uint_gamma_table [OF _ i r]) simp
  also have "\<dots> = \<lfloor>fl64 (b * 255)\<rfloor>" unfolding one b_def [symmetric] p ..
  also have "fl64 (b * 255) = of_nat i"
    unfolding b_def using \<open>i \<le> 255\<close> by (rule fl64_roundtrip_255)
  also have "\<lfloor>(of_nat i :: rat)\<rfloor> = int i" by simp
  finally show "unat (gamma_table cv 1 ! i) = i" by (simp add: unat_eq_nat_uint)
qed

theorem gamma_table_monotone_identity_witness:
  "power_contract (float64_power plain_cv)
   \<and> 0 < (1 / 2 :: rat) \<and> (100::nat) \<le> 200 \<and> (200::nat) \<le> 255
   \<and> gamma_table plain_cv (1 / 2) ! 100 \<le> gamma_table plain_cv (1 / 2) ! 200
   \<and> unat (gamma_table plain_cv 1 ! 100) = 100"
  using gamma_table_monotone_identity [OF power_contract_plain_cv, of "1 / 2" 100 200]
    power_contract_plain_cv
  by simp

section \<open>The dark channel\<close>

lemma mem_window:
  assumes "c < n" and "0 < k"
  shows "c \<in> set (window k n c)"
proof -
  have "k div 2 < k" using assms(2) by simp
  then have "c < c + (k - k div 2)" by simp
  then show ?thesis using assms(1) by (simp add: window_def)
qed

lemma px_erode_le:
  assumes "y < height src" and "x < width src" and "0 < k"
  shows "px (erode src k) y x \<le> px src y x"
proof -
  let ?ps = "List.product (window k (height src) y) (window k (width src) x)"
  have "(y, x) \<in> set ?ps"
    using mem_window [OF assms(1,3)] mem_window [OF assms(2,3)] by simp
  then have "px src y x \<in> set (map (\<lambda>(j, i). px src j i) ?ps)"
    by force
  then have "Min (set (map (\<lambda>(j, i). px src j i) ?ps)) \<le> px src y x"
    by (intro Min_le) simp_all
  then show ?thesis by (simp add: erode_def)
qed

lemma window_15_1_0: "window 15 1 0 = [0]"
  by code_simp

lemma window_15_2_1: "window 15 2 1 = [0, 1]"
  by code_simp

lemma dark_example:
  "px (dark_channel (to_float \<lparr>height = 1, width = 2, px = \<lambda>y x. (if x = 0 then 50 else 200, 100, 150)\<rparr>)) 0 1
     = 50 / 255"
proof -
  let ?I = "to_float \<lparr>height = 1, width = 2, px = \<lambda>y x. (if x = 0 then 50 else 200, 100, 150)\<rparr>"
  have h: "height ?I = 1" and w: "width ?I = 2" by (simp_all add: to_float_def same_shape_def)
  have p0: "min3 (px ?I 0 0) = 50 / 255"
    by (simp add: to_float_def same_shape_def min3_def map3_def u8_real_def)
  have p1: "min3 (px ?I 0 1) = 100 / 255"
    by (simp add: to_float_def same_shape_def min3_def map3_def u8_real_def)
  have "px (dark_channel ?I) 0 1 = Min {min3 (px ?I 0 0), min3 (px ?I 0 1)}"
    unfolding dark_channel_def Let_def erode_def
    by (simp add: same_shape_def h w window_15_1_0 window_15_2_1 del: One_nat_def)
  then show ?thesis using p0 p1 by simp
qed

text \<open>
  C8 (dark channel). At every position of the array, the dark channel of
  \<^verbatim>\<open>remove_fog\<close> (the erosion of the per-pixel minimum of the three channels by the
  15 by 15 window) is at most the minimum of the three channel values of that pixel,
  hence at most each of them: the window contains its own centre.
\<close>

theorem dark_channel_le_min_channel:
  assumes "y < height img" and "x < width img"
  shows "px (dark_channel img) y x \<le> min3 (px img y x)
       \<and> px (dark_channel img) y x \<le> fst (px img y x)
       \<and> px (dark_channel img) y x \<le> fst (snd (px img y x))
       \<and> px (dark_channel img) y x \<le> snd (snd (px img y x))"
proof -
  have "px (dark_channel img) y x \<le> px (same_shape img (\<lambda>y x. min3 (px img y x))) y x"
    unfolding dark_channel_def Let_def
    by (rule px_erode_le) (simp_all add: same_shape_def assms)
  then have "px (dark_channel img) y x \<le> min3 (px img y x)" by simp
  moreover obtain c0 c1 c2 where "px img y x = (c0, c1, c2)" by (cases "px img y x")
  ultimately show ?thesis by (simp add: min3_def)
qed

theorem dark_channel_le_min_channel_witness:
  "(0::nat) < height (to_float \<lparr>height = 1, width = 2, px = \<lambda>y x. (if x = 0 then 50 else 200, 100, 150)\<rparr>)
   \<and> (1::nat) < width (to_float \<lparr>height = 1, width = 2, px = \<lambda>y x. (if x = 0 then 50 else 200, 100, 150)\<rparr>)
   \<and> px (dark_channel (to_float \<lparr>height = 1, width = 2, px = \<lambda>y x. (if x = 0 then 50 else 200, 100, 150)\<rparr>)) 0 1
       \<le> min3 (px (to_float \<lparr>height = 1, width = 2, px = \<lambda>y x. (if x = 0 then 50 else 200, 100, 150)\<rparr>) 0 1)
   \<and> min3 (px (to_float \<lparr>height = 1, width = 2, px = \<lambda>y x. (if x = 0 then 50 else 200, 100, 150)\<rparr>) 0 1)
       = 100 / 255
   \<and> px (dark_channel (to_float \<lparr>height = 1, width = 2, px = \<lambda>y x. (if x = 0 then 50 else 200, 100, 150)\<rparr>)) 0 1
       = 50 / 255"
proof -
  let ?I = "to_float \<lparr>height = 1, width = 2, px = \<lambda>y x. (if x = 0 then 50 else 200, 100, 150)\<rparr>"
  have h: "0 < height ?I" by (simp add: to_float_def same_shape_def)
  have w: "1 < width ?I" by (simp add: to_float_def same_shape_def)
  have m: "min3 (px ?I 0 1) = 100 / 255"
    by (simp add: to_float_def min3_def map3_def u8_real_def)
  show ?thesis
    using dark_channel_le_min_channel [OF h w] h w m dark_example by simp
qed

section \<open>The number of brightest pixels\<close>

lemma floor_max_one: "\<lfloor>max (a::rat) 1\<rfloor> = max \<lfloor>a\<rfloor> 1"
proof (cases "a \<le> 1")
  case True
  then have "\<lfloor>a\<rfloor> \<le> \<lfloor>1::rat\<rfloor>" by (rule floor_mono)
  then have "\<lfloor>a\<rfloor> \<le> 1" by simp
  then have "max \<lfloor>a\<rfloor> 1 = 1" by (rule max_absorb2)
  moreover have "max a 1 = 1" using True by (rule max_absorb2)
  ultimately show ?thesis by simp
next
  case False
  then have "1 \<le> a" by simp
  then have "\<lfloor>1::rat\<rfloor> \<le> \<lfloor>a\<rfloor>" by (rule floor_mono)
  then have "1 \<le> \<lfloor>a\<rfloor>" by simp
  then have "max \<lfloor>a\<rfloor> 1 = \<lfloor>a\<rfloor>" by (rule max_absorb1)
  moreover have "max a 1 = a" using \<open>1 \<le> a\<close> by (rule max_absorb1)
  ultimately show ?thesis by simp
qed

lemma milli_facts:
  fixes c :: rat
  assumes "c = 1152921504606847 / 1152921504606846976"
  shows "0 < c" and "c \<le> 1" and "1 / 1000 \<le> c"
    and "c * (1 + 1 / 2 ^ 53) \<le> (1 + 1 / 2 ^ 50) / 1000"
  by (simp_all add: assms)

lemma fl64_count_bounds:
  fixes c :: rat
  assumes "0 < n" and "n < 2 ^ 50"
    and c: "c = 1152921504606847 / 1152921504606846976"
  shows "\<lfloor>fl64 (of_nat n * c)\<rfloor> = int (n div 1000)"
proof -
  define q where "q = n div 1000"
  define x :: rat where "x = of_nat n * c"
  note cf = milli_facts [OF c]
  have n0: "(0::rat) < of_nat n" using assms(1) by simp
  have "(of_nat n :: rat) < of_nat (2 ^ 50)"
    using assms(2) by (simp only: of_nat_less_iff)
  then have n50: "(of_nat n :: rat) < 2 ^ 50" by simp
  have x0: "0 < x" unfolding x_def using n0 cf(1) by (rule mult_pos_pos)
  have d1: "1000 * q \<le> n" and d2: "n + 1 \<le> 1000 * (q + 1)" by (simp_all add: q_def)
  have "(of_nat (1000 * q) :: rat) \<le> of_nat n" using d1 by (simp only: of_nat_le_iff)
  then have qn: "1000 * (of_nat q :: rat) \<le> of_nat n" by simp
  have "(of_nat (n + 1) :: rat) \<le> of_nat (1000 * (q + 1))" using d2 by (simp only: of_nat_le_iff)
  then have nq: "(of_nat n :: rat) + 1 \<le> 1000 * (of_nat q + 1)" by simp
  have "x \<le> of_nat n * 1" unfolding x_def using cf(2) n0 by (intro mult_left_mono) simp_all
  then have x53: "x < 2 ^ 53" using n50 by simp
  have "of_nat q \<le> of_nat n * (1 / 1000 :: rat)" using qn by simp
  also have "\<dots> \<le> x" unfolding x_def using cf(3) n0 by (intro mult_left_mono) simp_all
  finally have lo: "of_nat q \<le> fl64 x" by (rule fl64_ge_nat [OF x0 x53])
  have "fl64 x \<le> x * (1 + 1 / 2 ^ 53)" by (rule fl64_upper [OF x0])
  also have "\<dots> = of_nat n * (c * (1 + 1 / 2 ^ 53))" by (simp only: x_def mult.assoc)
  also have "\<dots> \<le> of_nat n * ((1 + 1 / 2 ^ 50) / 1000)"
    using cf(4) n0 by (intro mult_left_mono) simp_all
  also have "\<dots> = (of_nat n + of_nat n / 2 ^ 50) / 1000" by (simp add: field_simps)
  also have "\<dots> < (of_nat n + 1) / 1000" using n50 by simp
  also have "\<dots> \<le> of_nat q + 1" using nq by simp
  finally have hi: "fl64 x < of_int (int q) + 1" by simp
  have "of_int (int q) \<le> fl64 x" using lo by simp
  then have "\<lfloor>fl64 x\<rfloor> = int q" using hi by (rule floor_unique)
  then show ?thesis by (simp only: x_def q_def)
qed

lemma py_int_max_one: "py_int (max (a::rat) 1) = max \<lfloor>a\<rfloor> 1"
proof -
  have "(0::rat) \<le> max a 1" by simp
  then have "py_int (max a 1) = \<lfloor>max a 1\<rfloor>" by (simp only: py_int_def if_True)
  then show ?thesis by (simp only: floor_max_one)
qed

lemma num_bright_eq:
  assumes "0 < n" and "n < 2 ^ 50"
  shows "num_bright n = max 1 (n div 1000)"
proof -
  have "num_bright n = nat (max \<lfloor>fl64 (of_nat n * fl64 (1 / 1000))\<rfloor> 1)"
    by (simp only: num_bright_def py_int_max_one)
  also have "\<lfloor>fl64 (of_nat n * fl64 (1 / 1000))\<rfloor> = int (n div 1000)"
    unfolding fl64_milli by (rule fl64_count_bounds [OF assms refl])
  finally show ?thesis by (simp add: max_def)
qed

lemma num_bright_bounds:
  assumes "0 < n" and "n < 2 ^ 50"
  shows "1 \<le> num_bright n" and "num_bright n \<le> n"
proof -
  show "1 \<le> num_bright n" by (simp add: num_bright_eq [OF assms])
  have "n div 1000 \<le> n" by simp
  then show "num_bright n \<le> n" using assms(1) by (simp add: num_bright_eq [OF assms])
qed

section \<open>The atmospheric light\<close>

lemma partitioned_facts:
  assumes "partitioned a m p"
  shows "distinct p" and "set p = {..<length a}" and "length p = length a"
    and "\<And>i j. i < m \<Longrightarrow> m \<le> j \<Longrightarrow> j < length a \<Longrightarrow> a ! (p ! i) \<le> a ! (p ! j)"
proof -
  show d: "distinct p" using assms by (simp add: partitioned_def)
  have "set p = set [0..<length a]" using assms by (simp only: partitioned_def)
  then show s: "set p = {..<length a}" by (simp add: atLeast0LessThan)
  have "length p = card (set p)" using d by (simp add: distinct_card)
  then show len: "length p = length a" by (simp add: s)
  have "list_all (\<lambda>i. list_all (\<lambda>j. a ! (p ! i) \<le> a ! (p ! j)) [m..<length p]) [0..<m]"
    using assms by (simp only: partitioned_def)
  then have "\<forall>i\<in>set [0..<m]. \<forall>j\<in>set [m..<length a]. a ! (p ! i) \<le> a ! (p ! j)"
    by (simp only: list_all_iff len)
  then show "\<And>i j. i < m \<Longrightarrow> m \<le> j \<Longrightarrow> j < length a \<Longrightarrow> a ! (p ! i) \<le> a ! (p ! j)"
    by simp
qed

lemma in_set_drop_nth:
  assumes "m \<le> length p"
  shows "x \<in> set (drop m p) \<longleftrightarrow> (\<exists>j. m \<le> j \<and> j < length p \<and> p ! j = x)"
proof
  assume "x \<in> set (drop m p)"
  then obtain i where i: "i < length (drop m p)" and "drop m p ! i = x"
    by (auto simp add: in_set_conv_nth)
  then have "p ! (m + i) = x" using assms by simp
  moreover have "m + i < length p" using i by simp
  ultimately show "\<exists>j. m \<le> j \<and> j < length p \<and> p ! j = x" by (intro exI [of _ "m + i"]) simp
next
  assume "\<exists>j. m \<le> j \<and> j < length p \<and> p ! j = x"
  then obtain j where j: "m \<le> j" "j < length p" "p ! j = x" by blast
  then have "drop m p ! (j - m) = x" using assms by simp
  moreover have "j - m < length (drop m p)" using j by simp
  ultimately show "x \<in> set (drop m p)" by (metis nth_mem)
qed

lemma partitioned_top:
  assumes part: "partitioned a (length a - k) p" and k: "k \<le> length a"
  shows "distinct (drop (length p - k) p)"
    and "set (drop (length p - k) p) \<subseteq> {..<length a}"
    and "card (set (drop (length p - k) p)) = k"
    and "\<forall>i\<in>set (drop (length p - k) p). \<forall>j\<in>{..<length a} - set (drop (length p - k) p).
           a ! j \<le> a ! i"
proof -
  let ?n = "length a" and ?m = "length a - k"
  note pf = partitioned_facts [OF part]
  have len: "length p = ?n" by (rule pf(3))
  have d: "distinct p" by (rule pf(1))
  have s: "set p = {..<?n}" by (rule pf(2))
  have ord: "\<And>i j. i < ?m \<Longrightarrow> ?m \<le> j \<Longrightarrow> j < ?n \<Longrightarrow> a ! (p ! i) \<le> a ! (p ! j)"
    by (rule pf(4))
  have m: "?m \<le> length p" by (simp add: len)
  show "distinct (drop (length p - k) p)" using d by simp
  then have "card (set (drop (length p - k) p)) = length (drop (length p - k) p)"
    by (rule distinct_card)
  then show "card (set (drop (length p - k) p)) = k" using k by (simp add: len)
  show "set (drop (length p - k) p) \<subseteq> {..<length a}"
    using set_drop_subset [of "length p - k" p] s by simp
  show "\<forall>i\<in>set (drop (length p - k) p). \<forall>j\<in>{..<length a} - set (drop (length p - k) p).
           a ! j \<le> a ! i"
  proof (intro ballI)
    fix i j
    assume "i \<in> set (drop (length p - k) p)"
      and j: "j \<in> {..<length a} - set (drop (length p - k) p)"
    then have "i \<in> set (drop ?m p)" by (simp only: len)
    then have "\<exists>j'. ?m \<le> j' \<and> j' < length p \<and> p ! j' = i"
      by (simp only: in_set_drop_nth [OF m])
    then obtain j' where j': "?m \<le> j'" "j' < ?n" "p ! j' = i"
      unfolding len by blast
    from j have "j \<in> set p" by (simp add: s)
    then obtain i' where i': "i' < ?n" "p ! i' = j"
      by (auto simp add: in_set_conv_nth len)
    have "i' < ?m"
    proof (rule ccontr)
      assume "\<not> i' < ?m"
      then have "\<exists>j'. ?m \<le> j' \<and> j' < length p \<and> p ! j' = j"
        using i' len by (intro exI [of _ i']) simp
      then have "j \<in> set (drop ?m p)" by (simp only: in_set_drop_nth [OF m])
      then show False using j by (simp add: len)
    qed
    from ord [OF this j'(1,2)] show "a ! j \<le> a ! i" by (simp add: i' j')
  qed
qed

lemma length_ravel: "length (ravel g) = height g * width g"
  by (simp add: ravel_def)

lemma ravel_nth: "i < height g * width g \<Longrightarrow> ravel g ! i = flat_px g i"
  by (simp add: ravel_def)

lemma shape_dark_channel: "height (dark_channel img) = height img" "width (dark_channel img) = width img"
  by (simp_all add: dark_channel_def erode_def same_shape_def Let_def)

lemma mean_axis0_distinct:
  assumes "distinct xs"
  shows "mean_axis0 (map f xs) =
    ((\<Sum>i\<in>set xs. fst (f i)) / real (card (set xs)),
     (\<Sum>i\<in>set xs. fst (snd (f i))) / real (card (set xs)),
     (\<Sum>i\<in>set xs. snd (snd (f i))) / real (card (set xs)))"
  using assms
  by (simp add: mean_axis0_def comp_def sum_list_distinct_conv_sum_set distinct_card)

lemma window_15_2_0: "window 15 2 0 = [0, 1]"
  by code_simp

lemma two_pixels_shape: "height (to_float two_pixels) = 1" "width (to_float two_pixels) = 2"
  by (simp_all add: two_pixels_def to_float_def same_shape_def)

lemma two_pixels_min3:
  "min3 (px (to_float two_pixels) 0 0) = 50 / 255"
  "min3 (px (to_float two_pixels) 0 1) = 100 / 255"
  by (simp_all add: two_pixels_def to_float_def same_shape_def min3_def map3_def u8_real_def)

lemma two_pixels_dark:
  "px (dark_channel (to_float two_pixels)) 0 0 = 50 / 255"
  "px (dark_channel (to_float two_pixels)) 0 1 = 50 / 255"
proof -
  let ?I = "to_float two_pixels"
  have "px (dark_channel ?I) 0 0 = Min {min3 (px ?I 0 0), min3 (px ?I 0 1)}"
    unfolding dark_channel_def Let_def erode_def
    by (simp add: same_shape_def two_pixels_shape window_15_1_0 window_15_2_0 del: One_nat_def)
  then show "px (dark_channel ?I) 0 0 = 50 / 255" using two_pixels_min3 by simp
  have "px (dark_channel ?I) 0 1 = Min {min3 (px ?I 0 0), min3 (px ?I 0 1)}"
    unfolding dark_channel_def Let_def erode_def
    by (simp add: same_shape_def two_pixels_shape window_15_1_0 window_15_2_1 del: One_nat_def)
  then show "px (dark_channel ?I) 0 1 = 50 / 255" using two_pixels_min3 by simp
qed

lemma two_pixels_ravel_dark:
  "ravel (dark_channel (to_float two_pixels)) = [50 / 255, 50 / 255]"
proof -
  let ?d = "dark_channel (to_float two_pixels)"
  have hw: "height ?d * width ?d = 2" and w: "width ?d = 2"
    by (simp_all add: shape_dark_channel two_pixels_shape)
  have u: "[0..<2] = [0, Suc 0]" by (simp add: upt_rec)
  have "ravel ?d = [flat_px ?d 0, flat_px ?d (Suc 0)]"
    unfolding ravel_def hw u by simp
  moreover have "flat_px ?d 0 = 50 / 255" "flat_px ?d (Suc 0) = 50 / 255"
    using two_pixels_dark by (simp_all add: flat_px_def w)
  ultimately show ?thesis by simp
qed

lemma num_bright_2: "num_bright 2 = 1"
  by (simp add: num_bright_eq)

lemma argpartition_example:
  "argpartition plain_cv [50 / 255, 50 / 255] (- 1) = [0, Suc 0]"
proof -
  have u: "[0..<2] = [0, Suc 0]" by (simp add: upt_rec)
  have "length [50 / 255 :: real, 50 / 255] = 2" by simp
  then have "argpartition plain_cv [50 / 255, 50 / 255] (- 1)
      = map snd (sort_key fst (zip [50 / 255 :: real, 50 / 255] [0, Suc 0]))"
    by (simp only: plain_cv_def opencv.simps u)
  also have "\<dots> = [0, Suc 0]" by simp
  finally show ?thesis .
qed

lemma partitioned_example:
  "partitioned [50 / 255, 50 / 255] (Suc 0) [0, Suc 0]"
proof -
  have u: "[0..<2] = [0, Suc 0]" "[0..<Suc 0] = [0]" "[Suc 0..<2] = [Suc 0]"
    by (simp_all add: upt_rec)
  have l: "length [50 / 255 :: real, 50 / 255] = 2" "length [0, Suc 0] = 2" by simp_all
  show ?thesis
    unfolding partitioned_def l u by simp
qed

text \<open>
  C4 (atmospheric light). Let \<open>n\<close> be the number of pixels, \<open>dark\<close> the dark channel and
  \<open>S\<close> the set of flat indices that \<^verbatim>\<open>remove_fog\<close> selects. Provided
  \<^verbatim>\<open>np.argpartition\<close> returns what NumPy documents for this call, \<open>S\<close> has exactly
  \<open>num_bright n = max 1 (n div 1000)\<close> elements (0.1% of the pixels, and at least one), no
  pixel outside \<open>S\<close> has a larger dark-channel value than a pixel of \<open>S\<close>, and the
  atmospheric light is, channel by channel, the mean over \<open>S\<close> of the colours of the
  float image. The bound \<open>n < 2 ^ 50\<close> keeps the float product \<open>n * 0.001\<close> exact enough;
  no array comes near it.
\<close>

theorem atmospheric_light_brightest_mean:
  assumes n: "n = height img * width img" and n0: "0 < n" and n50: "n < 2 ^ 50"
    and dark: "dark = dark_channel img"
    and part: "partitioned (ravel dark) (n - num_bright n)
                 (argpartition cv (ravel dark) (- int (num_bright n)))"
    and S: "S = set (brightest_indices cv dark)"
  shows "num_bright n = max 1 (n div 1000)
    \<and> S \<subseteq> {..<n} \<and> card S = num_bright n
    \<and> (\<forall>i\<in>S. \<forall>j\<in>{..<n} - S. flat_px dark j \<le> flat_px dark i)
    \<and> atmospheric_light cv img dark =
        ((\<Sum>i\<in>S. fst (flat_px img i)) / real (card S),
         (\<Sum>i\<in>S. fst (snd (flat_px img i))) / real (card S),
         (\<Sum>i\<in>S. snd (snd (flat_px img i))) / real (card S))"
proof -
  let ?a = "ravel dark" and ?k = "num_bright n"
  let ?p = "argpartition cv ?a (- int ?k)"
  have len: "length ?a = n" by (simp add: length_ravel dark shape_dark_channel n)
  have k: "?k \<le> length ?a" using num_bright_bounds(2) [OF n0 n50] by (simp add: len)
  have bi: "brightest_indices cv dark = drop (length ?p - ?k) ?p"
    by (simp add: brightest_indices_def Let_def len)
  have part': "partitioned ?a (length ?a - ?k) ?p" using part by (simp only: len)
  note top = partitioned_top [OF part' k]
  have d: "distinct (brightest_indices cv dark)" using top(1) by (simp only: bi)
  have sub: "S \<subseteq> {..<n}" using top(2) by (simp only: S bi len)
  have card: "card S = ?k" using top(3) by (simp only: S bi)
  have "\<forall>i\<in>S. \<forall>j\<in>{..<n} - S. ?a ! j \<le> ?a ! i" using top(4) by (simp only: S bi len)
  then have ord: "\<forall>i\<in>S. \<forall>j\<in>{..<n} - S. flat_px dark j \<le> flat_px dark i"
  proof (intro ballI)
    fix i j
    assume a: "\<forall>i\<in>S. \<forall>j\<in>{..<n} - S. ?a ! j \<le> ?a ! i" and i: "i \<in> S" and j: "j \<in> {..<n} - S"
    have "i < height dark * width dark" using i sub by (auto simp add: dark shape_dark_channel n)
    moreover have "j < height dark * width dark" using j by (auto simp add: dark shape_dark_channel n)
    moreover have "?a ! j \<le> ?a ! i" using a i j by blast
    ultimately show "flat_px dark j \<le> flat_px dark i" by (simp add: ravel_nth)
  qed
  have A: "atmospheric_light cv img dark =
        ((\<Sum>i\<in>S. fst (flat_px img i)) / real (card S),
         (\<Sum>i\<in>S. fst (snd (flat_px img i))) / real (card S),
         (\<Sum>i\<in>S. snd (snd (flat_px img i))) / real (card S))"
    unfolding atmospheric_light_def Let_def S by (rule mean_axis0_distinct [OF d])
  show ?thesis using num_bright_eq [OF n0 n50] sub card ord A by blast
qed

theorem atmospheric_light_brightest_mean_witness:
  "(2::nat) = height (to_float two_pixels) * width (to_float two_pixels)
   \<and> (0::nat) < 2 \<and> (2::nat) < 2 ^ 50
   \<and> partitioned (ravel (dark_channel (to_float two_pixels))) (2 - num_bright 2)
        (argpartition plain_cv (ravel (dark_channel (to_float two_pixels))) (- int (num_bright 2)))
   \<and> num_bright 2 = 1
   \<and> set (brightest_indices plain_cv (dark_channel (to_float two_pixels))) = {1}
   \<and> atmospheric_light plain_cv (to_float two_pixels) (dark_channel (to_float two_pixels))
       = (200 / 255, 100 / 255, 150 / 255)"
proof -
  let ?I = "to_float two_pixels"
  let ?d = "dark_channel ?I"
  have n: "(2::nat) = height ?I * width ?I" by (simp add: two_pixels_shape)
  have n0: "(0::nat) < 2" and n50: "(2::nat) < 2 ^ 50" by simp_all
  have k: "2 - num_bright 2 = Suc 0" "- int (num_bright 2) = - 1" by (simp_all add: num_bright_2)
  have part: "partitioned (ravel ?d) (2 - num_bright 2)
        (argpartition plain_cv (ravel ?d) (- int (num_bright 2)))"
    unfolding two_pixels_ravel_dark k argpartition_example by (rule partitioned_example)
  have l2: "length [50 / 255 :: real, 50 / 255] = 2" by simp
  have "brightest_indices plain_cv ?d = [Suc 0]"
    unfolding brightest_indices_def Let_def two_pixels_ravel_dark l2 k(2) argpartition_example
    by (simp add: num_bright_2)
  then have S: "set (brightest_indices plain_cv ?d) = {1}" by simp
  have px1: "flat_px ?I 1 = (200 / 255, 100 / 255, 150 / 255)"
    by (simp add: flat_px_def two_pixels_def to_float_def same_shape_def map3_def u8_real_def)
  note T = atmospheric_light_brightest_mean [OF n n0 n50 refl part refl]
  from T have "atmospheric_light plain_cv ?I ?d =
        ((\<Sum>i\<in>set (brightest_indices plain_cv ?d). fst (flat_px ?I i))
            / real (card (set (brightest_indices plain_cv ?d))),
         (\<Sum>i\<in>set (brightest_indices plain_cv ?d). fst (snd (flat_px ?I i)))
            / real (card (set (brightest_indices plain_cv ?d))),
         (\<Sum>i\<in>set (brightest_indices plain_cv ?d). snd (snd (flat_px ?I i)))
            / real (card (set (brightest_indices plain_cv ?d))))"
    by (elim conjE)
  then have A: "atmospheric_light plain_cv ?I ?d = (200 / 255, 100 / 255, 150 / 255)"
    unfolding S using px1 by simp
  show ?thesis
    by (intro conjI) (rule n n0 n50 part num_bright_2 S A)+
qed

section \<open>Value ranges\<close>















end
